(* ===== verification/Prelude.thy ===== *)
theory Prelude
  imports Main "HOL-Library.Word" "HOL-Library.Multiset"
begin

text \<open>
  Shared vocabulary of the development: fallible results, the loops that stop at the
  first error, hash maps (as partial functions where the program only looks keys up, as
  association lists where it also iterates), and the multimap interface behind Rust's
  \<open>map.entry(k).or_default().append(vs)\<close>.  Everything the components share is collected
  here, in the simp set or in one of the collections below.
\<close>

section \<open>Collections of facts\<close>

named_theorems traverse_simps \<open>how traverse acts on lists of successes\<close>
named_theorems hashmap_simps \<open>what a hash map holds after an update\<close>

section \<open>Results\<close>

text \<open>
  \<open>Result<T, E>\<close> is the sum type with the error on the left.  A loop that parses every
  piece and returns at the first failure, and \<open>iter.map(f).collect::<Result<Vec<_>, _>>()\<close>,
  are both \<open>traverse\<close>.
\<close>

fun traverse :: "('a \<Rightarrow> 'e + 'b) \<Rightarrow> 'a list \<Rightarrow> 'e + 'b list" where
  "traverse f [] = Inr []"
| "traverse f (x # xs) =
     (case f x of
        Inl e \<Rightarrow> Inl e
      | Inr y \<Rightarrow> (case traverse f xs of Inl e \<Rightarrow> Inl e | Inr ys \<Rightarrow> Inr (y # ys)))"

lemma traverse_Inr_iff:
  "traverse f xs = Inr ys \<longleftrightarrow> list_all2 (\<lambda>x y. f x = Inr y) xs ys"
proof (induction xs arbitrary: ys)
  case Nil
  then show ?case by auto
next
  case (Cons x xs)
  show ?case
  proof (cases ys)
    case Nil
    then show ?thesis by (auto split: sum.splits)
  next
    case (Cons y ys')
    with Cons.IH [of ys'] show ?thesis by (auto split: sum.splits)
  qed
qed

lemma traverse_length: "traverse f xs = Inr ys \<Longrightarrow> length ys = length xs"
  by (auto simp: traverse_Inr_iff dest: list_all2_lengthD)

lemma traverse_map_ok [traverse_simps]:
  assumes "\<And>y. y \<in> set ys \<Longrightarrow> f (g y) = Inr y"
  shows "traverse f (map g ys) = Inr ys"
  using assms by (induction ys) auto

lemma traverse_Inl_iff:
  "(\<exists>e. traverse f xs = Inl e) \<longleftrightarrow> (\<exists>x \<in> set xs. \<exists>e. f x = Inl e)"
proof (induction xs)
  case Nil
  then show ?case by simp
next
  case (Cons x xs)
  then show ?case by (cases "f x"; cases "traverse f xs") auto
qed

lemma traverse_error_from_piece:
  "traverse f xs = Inl e \<Longrightarrow> \<exists>x \<in> set xs. f x = Inl e"
  by (induction xs) (auto split: sum.splits)

text \<open>\<open>unwrap_or_default\<close> and \<open>or_default\<close> on an optional vector.\<close>

definition or_default :: "'v list option \<Rightarrow> 'v list" where
  "or_default o' = (case o' of None \<Rightarrow> [] | Some vs \<Rightarrow> vs)"

lemma or_default_simps [simp]: "or_default None = []" "or_default (Some vs) = vs"
  by (simp_all add: or_default_def)

section \<open>Hash maps\<close>

text \<open>
  A \<open>HashMap\<close> the program iterates over is an association list with distinct keys.
  Rust gives no order to that iteration, so every operation that iterates takes an
  \<open>order\<close>: a function that rearranges the entries and loses none.  Theorems hold for
  every such order.
\<close>

definition hash_order :: "('a list \<Rightarrow> 'a list) \<Rightarrow> bool" where
  "hash_order order \<longleftrightarrow> (\<forall>xs. mset (order xs) = mset xs)"

lemma hash_order_set: "hash_order order \<Longrightarrow> set (order xs) = set xs"
  unfolding hash_order_def by (metis set_mset_mset)

lemma hash_order_distinct: "hash_order order \<Longrightarrow> distinct (order xs) = distinct xs"
  unfolding hash_order_def by (metis distinct_count_atmost_1 set_mset_mset)

lemma hash_order_length: "hash_order order \<Longrightarrow> length (order xs) = length xs"
  unfolding hash_order_def by (metis size_mset)

lemma hash_order_id: "hash_order (\<lambda>xs. xs)" and hash_order_rev: "hash_order rev"
  by (simp_all add: hash_order_def)

text \<open>\<open>*map.entry(k)\<close> replaced by a function of what was there.\<close>

fun upsert :: "'k \<Rightarrow> ('v option \<Rightarrow> 'v) \<Rightarrow> ('k \<times> 'v) list \<Rightarrow> ('k \<times> 'v) list" where
  "upsert k f [] = [(k, f None)]"
| "upsert k f ((j, v) # m) = (if j = k then (j, f (Some v)) # m else (j, v) # upsert k f m)"

lemma map_of_upsert [hashmap_simps]: "map_of (upsert k f m) = (map_of m)(k \<mapsto> f (map_of m k))"
  by (induction m) auto

lemma keys_upsert: "fst ` set (upsert k f m) = insert k (fst ` set m)"
proof (induction m)
  case Nil
  then show ?case by simp
next
  case (Cons p m)
  obtain j v where p: "p = (j, v)" by (cases p)
  show ?case by (cases "j = k") (simp_all add: p Cons.IH insert_commute)
qed

lemma distinct_upsert: "distinct (map fst m) \<Longrightarrow> distinct (map fst (upsert k f m))"
proof (induction m)
  case Nil
  then show ?case by simp
next
  case (Cons p m)
  obtain j v where p: "p = (j, v)" by (cases p)
  show ?case using Cons by (cases "j = k") (simp_all add: p keys_upsert)
qed

lemma upsert_not_Nil [simp]: "upsert k f m \<noteq> []"
  by (cases m) (auto split: if_splits)

subsection \<open>The multimap interface\<close>

text \<open>
  \<open>entry(k).or_default().append(vs)\<close> promises one thing: the vector under \<open>k\<close> grows by
  \<open>vs\<close> at its end and every other key is untouched.  What a series of such updates leaves
  in the map is proved once, from that law.
\<close>

definition map_push :: "'k \<Rightarrow> 'v list \<Rightarrow> ('k \<rightharpoonup> 'v list) \<Rightarrow> ('k \<rightharpoonup> 'v list)" where
  "map_push k vs m = m(k \<mapsto> or_default (m k) @ vs)"

locale multimap =
  fixes entries :: "'m \<Rightarrow> 'k \<Rightarrow> 'v list option"
    and push :: "'k \<Rightarrow> 'v list \<Rightarrow> 'm \<Rightarrow> 'm"
  assumes entries_push:
    "entries (push k vs m) j =
       (if j = k then Some (or_default (entries m k) @ vs) else entries m j)"
begin

lemma entries_push_map: "entries (push k vs m) = map_push k vs (entries m)"
  by (rule ext) (simp add: entries_push map_push_def)

lemma entries_fold_map:
  "entries (fold (\<lambda>(k, vs). push k vs) ups m) = fold (\<lambda>(k, vs). map_push k vs) ups (entries m)"
  by (induction ups arbitrary: m) (auto simp: entries_push_map split: prod.splits)

lemma entries_fold:
  "entries (fold (\<lambda>(k, vs). push k vs) ups m) j =
     (if entries m j = None \<and> j \<notin> fst ` set ups then None
      else Some (or_default (entries m j) @ concat [vs. (k, vs) \<leftarrow> ups, k = j]))"
proof (induction ups arbitrary: m)
  case Nil
  then show ?case by (auto simp: or_default_def)
next
  case (Cons u ups)
  obtain k vs where u: "u = (k, vs)" by (cases u)
  show ?case by (auto simp: u Cons.IH entries_push)
qed

lemma values_fold:
  "or_default (entries (fold (\<lambda>(k, vs). push k vs) ups m) j) =
     or_default (entries m j) @ concat [vs. (k, vs) \<leftarrow> ups, k = j]"
  by (auto simp: entries_fold) (force simp: image_iff)

lemma value_in_fold:
  "v \<in> set (or_default (entries (fold (\<lambda>(k, vs). push k vs) ups m) j)) \<longleftrightarrow>
     v \<in> set (or_default (entries m j)) \<or> (\<exists>vs. (j, vs) \<in> set ups \<and> v \<in> set vs)"
  by (auto simp: values_fold)

end

interpretation flat: multimap "\<lambda>m. m" map_push
  by unfold_locales (simp add: map_push_def)

text \<open>A map that is iterated over.\<close>

definition alist_push :: "'k \<Rightarrow> 'v list \<Rightarrow> ('k \<times> 'v list) list \<Rightarrow> ('k \<times> 'v list) list" where
  "alist_push k vs m = upsert k (\<lambda>old. or_default old @ vs) m"

interpretation listed: multimap map_of alist_push
  by unfold_locales (simp add: alist_push_def map_of_upsert)

lemma keys_alist_push [simp]: "fst ` set (alist_push k vs m) = insert k (fst ` set m)"
  by (simp add: alist_push_def keys_upsert)

lemma distinct_alist_push [simp]:
  "distinct (map fst m) \<Longrightarrow> distinct (map fst (alist_push k vs m))"
  by (simp add: alist_push_def distinct_upsert)

text \<open>A map of maps, updated at a pair of keys; the inner map is created on demand.\<close>

definition nested_get :: "('n \<rightharpoonup> ('k \<rightharpoonup> 'v)) \<Rightarrow> 'n \<times> 'k \<Rightarrow> 'v option" where
  "nested_get m p = (case m (fst p) of None \<Rightarrow> None | Some inner \<Rightarrow> inner (snd p))"

definition inner_or_default :: "('k \<rightharpoonup> 'v) option \<Rightarrow> ('k \<rightharpoonup> 'v)" where
  "inner_or_default o' = (case o' of None \<Rightarrow> Map.empty | Some inner \<Rightarrow> inner)"

definition nested_push ::
  "'n \<times> 'k \<Rightarrow> 'v list \<Rightarrow> ('n \<rightharpoonup> ('k \<rightharpoonup> 'v list)) \<Rightarrow> ('n \<rightharpoonup> ('k \<rightharpoonup> 'v list))" where
  "nested_push p vs m = m(fst p \<mapsto> map_push (snd p) vs (inner_or_default (m (fst p))))"

interpretation nested: multimap nested_get nested_push
  by unfold_locales
    (auto simp: nested_get_def nested_push_def inner_or_default_def map_push_def
      split: option.splits)

lemma nested_get_Some_iff:
  "nested_get m (n, k) = Some v \<longleftrightarrow> (\<exists>inner. m n = Some inner \<and> inner k = Some v)"
  by (auto simp: nested_get_def split: option.splits)

lemma nested_push_other [simp]: "n' \<noteq> fst p \<Longrightarrow> nested_push p vs m n' = m n'"
  by (simp add: nested_push_def)

text \<open>\<open>entry(n).or_default()\<close> alone: the inner map exists afterwards, with nothing new in it.\<close>

definition nested_touch :: "'n \<Rightarrow> ('n \<rightharpoonup> ('k \<rightharpoonup> 'v)) \<Rightarrow> ('n \<rightharpoonup> ('k \<rightharpoonup> 'v))" where
  "nested_touch n m = m(n \<mapsto> inner_or_default (m n))"

lemma nested_get_touch [simp]: "nested_get (nested_touch n m) p = nested_get m p"
  by (auto simp: nested_get_def nested_touch_def inner_or_default_def split: option.splits)

lemma dom_nested_touch [simp]: "dom (nested_touch n m) = insert n (dom m)"
  by (auto simp: nested_touch_def)

lemma dom_nested_push [simp]: "dom (nested_push p vs m) = insert (fst p) (dom m)"
  by (auto simp: nested_push_def)

section \<open>Lists\<close>

text \<open>A component of the state that every step of a loop updates by its own list of updates.\<close>

lemma fold_project:
  assumes "\<And>x s. F (step x s) = fold g (ups x) (F s)"
  shows "F (fold step xs s) = fold g (concat (map ups xs)) (F s)"
  by (induction xs arbitrary: s) (simp_all add: assms)

lemma fold_project_same:
  assumes "\<And>x s. F (step x s) = F s"
  shows "F (fold step xs s) = F s"
  by (induction xs arbitrary: s) (simp_all add: assms)

lemma key_iff: "k \<in> fst ` S \<longleftrightarrow> (\<exists>v. (k, v) \<in> S)"
  by force

lemma in_concat_pairs:
  "(x, n) \<in> set (concat (map (\<lambda>(k, xs). map (\<lambda>x. (x, g k)) xs) ps)) \<longleftrightarrow>
     (\<exists>k xs. (k, xs) \<in> set ps \<and> x \<in> set xs \<and> n = g k)"
  by (induction ps) auto

text \<open>Overwriting updates: the last one at a key counts.\<close>

lemma fold_overwrite:
  "fold (\<lambda>(k, v) m. m(k \<mapsto> v)) ups m = m ++ map_of (rev ups)"
  by (induction ups arbitrary: m) (auto simp: map_add_def fun_eq_iff split: option.splits)

lemma filter_map_concat_mem:
  "x \<in> set (concat [f y. y \<leftarrow> ys, P y]) \<longleftrightarrow> (\<exists>y \<in> set ys. P y \<and> x \<in> set (f y))"
  by (induction ys) auto

lemma fold_invariant_list:
  assumes "P s" and "\<And>x s. x \<in> set xs \<Longrightarrow> P s \<Longrightarrow> P (f x s)"
  shows "P (fold f xs s)"
  using assms by (induction xs arbitrary: s) auto


text \<open>A list without one of its elements, and what holds for all elements after an update.\<close>

definition drop_nth :: "nat \<Rightarrow> 'a list \<Rightarrow> 'a list" where
  "drop_nth i xs = take i xs @ drop (Suc i) xs"

lemma list_all_nth: "list_all Q xs \<Longrightarrow> i < length xs \<Longrightarrow> Q (xs ! i)"
  by (simp add: list_all_length)

lemma list_all_drop_nth: "list_all Q xs \<Longrightarrow> list_all Q (drop_nth i xs)"
  by (auto simp: list_all_iff drop_nth_def dest: in_set_takeD in_set_dropD)

lemma list_all_update: "list_all Q xs \<Longrightarrow> Q y \<Longrightarrow> list_all Q (xs[i := y])"
  by (auto simp: list_all_iff dest!: set_update_subset_insert [THEN subsetD])

lemma sum_list_drop_nth: "sum_list (map f (drop_nth i xs)) \<le> (sum_list (map f xs) :: nat)"
proof (cases "i < length xs")
  case True
  then have "sum_list (map f xs) = sum_list (map f (take i xs @ xs ! i # drop (Suc i) xs))"
    by (simp add: id_take_nth_drop [symmetric])
  then show ?thesis by (simp add: drop_nth_def)
next
  case False
  then show ?thesis by (simp add: drop_nth_def)
qed

lemma sum_list_map_update:
  "i < length xs \<Longrightarrow> sum_list (map f (xs[i := y])) + f (xs ! i) = sum_list (map f xs) + (f y :: nat)"
proof (induction xs arbitrary: i)
  case (Cons x xs)
  show ?case
  proof (cases i)
    case (Suc j)
    with Cons.prems Cons.IH [of j] show ?thesis by simp
  qed simp
qed simp

lemma sum_list_pos: "0 < sum_list (map f xs) \<Longrightarrow> \<exists>x \<in> set xs. 0 < (f x :: nat)"
  by (induction xs) auto

section \<open>Traces\<close>

text \<open>
  The runs of a labelled transition system: the labels of all steps so far, and the state.  An
  invariant speaks of both; its two laws are the interface \<open>trace_invariant\<close>.
\<close>

inductive trace_of ::
  "('s \<Rightarrow> bool) \<Rightarrow> ('s \<Rightarrow> 'l list \<Rightarrow> 's \<Rightarrow> bool) \<Rightarrow> 'l list \<Rightarrow> 's \<Rightarrow> bool"
  for init :: "'s \<Rightarrow> bool" and moves :: "'s \<Rightarrow> 'l list \<Rightarrow> 's \<Rightarrow> bool"
where
  trace_init: "init s \<Longrightarrow> trace_of init moves [] s"
| trace_step: "trace_of init moves tr s \<Longrightarrow> moves s ls s' \<Longrightarrow> trace_of init moves (tr @ ls) s'"

lemma trace_of_trans:
  assumes "trace_of init moves tr s" and "trace_of ((=) s) moves tr' s'"
  shows "trace_of init moves (tr @ tr') s'"
  using assms(2)
proof (induction rule: trace_of.induct)
  case (trace_init s')
  with assms(1) show ?case by simp
next
  case (trace_step tr' s1 ls s2)
  from trace_of.trace_step [OF trace_step.IH trace_step.hyps(2)] show ?case by simp
qed

lemma trace_of_one: "moves s ls s' \<Longrightarrow> trace_of ((=) s) moves ls s'"
  using trace_of.trace_step [of "(=) s" moves "[]" s ls s'] trace_of.trace_init [of "(=) s" s moves] by simp

lemma trace_of_Cons:
  "moves s ls s1 \<Longrightarrow> trace_of ((=) s1) moves tr s' \<Longrightarrow> trace_of ((=) s) moves (ls @ tr) s'"
  by (rule trace_of_trans [OF trace_of_one])

locale trace_invariant =
  fixes init :: "'s \<Rightarrow> bool" and moves :: "'s \<Rightarrow> 'l list \<Rightarrow> 's \<Rightarrow> bool"
    and inv :: "'l list \<Rightarrow> 's \<Rightarrow> bool"
  assumes inv_init: "init s \<Longrightarrow> inv [] s"
    and inv_step: "trace_of init moves tr s \<Longrightarrow> inv tr s \<Longrightarrow> moves s ls s' \<Longrightarrow> inv (tr @ ls) s'"
begin

lemma holds: "trace_of init moves tr s \<Longrightarrow> inv tr s"
  by (induction rule: trace_of.induct) (auto intro: inv_init inv_step)

end

text \<open>Every label of a trace has a cause among the labels before it.\<close>

definition causal :: "('l list \<Rightarrow> 'l \<Rightarrow> bool) \<Rightarrow> 'l list \<Rightarrow> bool" where
  "causal C tr \<longleftrightarrow> (\<forall>i < length tr. C (take i tr) (tr ! i))"

lemma causal_Nil [simp]: "causal C []"
  by (simp add: causal_def)

lemma causal_append:
  assumes "causal C tr" and "\<And>i. i < length ls \<Longrightarrow> C (tr @ take i ls) (ls ! i)"
  shows "causal C (tr @ ls)"
proof -
  have "C (take i (tr @ ls)) ((tr @ ls) ! i)" if "i < length (tr @ ls)" for i
  proof (cases "i < length tr")
    case True
    with assms(1) show ?thesis by (simp add: causal_def nth_append)
  next
    case False
    with assms(2) [of "i - length tr"] that show ?thesis by (simp add: nth_append)
  qed
  then show ?thesis by (simp add: causal_def)
qed

lemma causal_nth: "causal C tr \<Longrightarrow> i < length tr \<Longrightarrow> C (take i tr) (tr ! i)"
  by (simp add: causal_def)

end
