(* ===== verification/Rust_Str.thy ===== *)
theory Rust_Str
  imports Prelude
begin

text \<open>
  The part of Rust's string library the program uses.  A \<open>String\<close>, a \<open>&str\<close> and the
  bytes of a file are lists of bytes, written with HOL's 8-bit \<open>char\<close>, and a string
  literal of the source is a literal here.  Patterns of the program are ASCII, so splitting
  the bytes splits the UTF-8 text; white space beyond ASCII is recognised by its UTF-8
  encoding.
\<close>

definition byte :: "char \<Rightarrow> int" where
  "byte c = of_char c"

lemma byte_less [simp]: "byte c < 256"
proof -
  have "of_char c < (256::nat)" by simp
  then show ?thesis unfolding byte_def by (metis of_nat_less_numeral_iff of_nat_of_char)
qed

lemma byte_nonneg [simp]: "0 \<le> byte c"
  unfolding byte_def by (metis of_nat_0_le_iff of_nat_of_char)

lemma byte_inject [simp]: "byte c = byte d \<longleftrightarrow> c = d"
  by (simp add: byte_def)

lemma byte_char_of [simp]: "0 \<le> n \<Longrightarrow> n < 256 \<Longrightarrow> byte (char_of n) = n"
  by (simp add: byte_def)

section \<open>Splitting and joining\<close>

text \<open>\<open>str::split(c)\<close>: always at least one piece; adjacent separators give empty pieces.\<close>

fun split_char :: "char \<Rightarrow> string \<Rightarrow> string list" where
  "split_char c [] = [[]]"
| "split_char c (x # xs) =
     (if x = c then [] # split_char c xs
      else (case split_char c xs of [] \<Rightarrow> [[x]] | p # ps \<Rightarrow> (x # p) # ps))"

lemma split_char_not_Nil [simp]: "split_char c s \<noteq> []"
  by (cases s) (auto split: list.splits)

lemma split_char_no_sep [simp]: "c \<notin> set s \<Longrightarrow> split_char c s = [s]"
  by (induction s) auto

lemma split_char_append:
  "c \<notin> set p \<Longrightarrow> split_char c (p @ c # s) = p # split_char c s"
  by (induction p) auto

lemma split_char_pieces: "p \<in> set (split_char c s) \<Longrightarrow> c \<notin> set p"
proof (induction c s arbitrary: p rule: split_char.induct)
  case (1 c)
  then show ?case by simp
next
  case (2 c x xs)
  then show ?case by (cases "split_char c xs") (fastforce split: if_splits)+
qed

lemma split_char_chars: "p \<in> set (split_char c s) \<Longrightarrow> set p \<subseteq> set s"
proof (induction c s arbitrary: p rule: split_char.induct)
  case (1 c)
  then show ?case by simp
next
  case (2 c x xs)
  then show ?case by (cases "split_char c xs") (fastforce split: if_splits)+
qed

text \<open>\<open>[String]::join(sep)\<close>.\<close>

fun join :: "string \<Rightarrow> string list \<Rightarrow> string" where
  "join sep [] = []"
| "join sep [p] = p"
| "join sep (p # q # ps) = p @ sep @ join sep (q # ps)"

lemma join_Cons: "ps \<noteq> [] \<Longrightarrow> join sep (p # ps) = p @ sep @ join sep ps"
  by (cases ps) auto

lemma split_join:
  "ps \<noteq> [] \<Longrightarrow> \<forall>p \<in> set ps. c \<notin> set p \<Longrightarrow> split_char c (join [c] ps) = ps"
  by (induction "[c]" ps rule: join.induct) (auto simp: split_char_append)

lemma join_split: "join [c] (split_char c s) = s"
proof (induction c s rule: split_char.induct)
  case (1 c)
  then show ?case by simp
next
  case (2 c x xs)
  show ?case
  proof (cases "x = c")
    case True
    with 2 show ?thesis by (simp add: join_Cons)
  next
    case False
    obtain p ps where ps: "split_char c xs = p # ps"
      by (cases "split_char c xs") auto
    with False 2 show ?thesis by (cases ps) (auto simp: ps)
  qed
qed

lemma set_join: "set (join sep ps) \<subseteq> set sep \<union> \<Union> (set ` set ps)"
  by (induction sep ps rule: join.induct) auto

text \<open>\<open>str::split_once(pat)\<close> for a pattern of single characters.\<close>

fun split_once :: "(char \<Rightarrow> bool) \<Rightarrow> string \<Rightarrow> (string \<times> string) option" where
  "split_once P [] = None"
| "split_once P (x # xs) =
     (if P x then Some ([], xs)
      else map_option (\<lambda>(a, b). (x # a, b)) (split_once P xs))"

lemma split_once_None_iff: "split_once P s = None \<longleftrightarrow> (\<forall>x \<in> set s. \<not> P x)"
  by (induction s) auto

lemma split_once_append:
  "\<forall>x \<in> set a. \<not> P x \<Longrightarrow> P c \<Longrightarrow> split_once P (a @ c # b) = Some (a, b)"
  by (induction a) auto

lemma split_once_Some:
  "split_once P s = Some (a, b) \<Longrightarrow> \<exists>c. P c \<and> s = a @ c # b \<and> (\<forall>x \<in> set a. \<not> P x)"
  by (induction s arbitrary: a) (auto split: if_splits)

section \<open>Suffixes\<close>

definition ends_with :: "string \<Rightarrow> string \<Rightarrow> bool" where
  "ends_with s suf \<longleftrightarrow> length suf \<le> length s \<and> drop (length s - length suf) s = suf"

text \<open>\<open>s.truncate(s.len() - n)\<close>.\<close>

definition drop_last :: "nat \<Rightarrow> string \<Rightarrow> string" where
  "drop_last n s = take (length s - n) s"

definition strip_suffix :: "string \<Rightarrow> string \<Rightarrow> string option" where
  "strip_suffix suf s = (if ends_with s suf then Some (drop_last (length suf) s) else None)"

lemma ends_with_iff: "ends_with s suf \<longleftrightarrow> (\<exists>p. s = p @ suf)"
proof
  assume "ends_with s suf"
  then have "s = take (length s - length suf) s @ suf"
    unfolding ends_with_def by (metis append_take_drop_id)
  then show "\<exists>p. s = p @ suf" by blast
qed (auto simp: ends_with_def)

lemma ends_with_append [simp]: "ends_with (p @ suf) suf"
  by (auto simp: ends_with_iff)

lemma ends_with_Nil [simp]: "ends_with s []"
  by (simp add: ends_with_def)

lemma drop_last_append [simp]: "drop_last (length suf) (p @ suf) = p"
  by (simp add: drop_last_def)

lemma drop_last_0 [simp]: "drop_last 0 s = s"
  by (simp add: drop_last_def)

lemma strip_suffix_Some_iff: "strip_suffix suf s = Some p \<longleftrightarrow> s = p @ suf"
  by (auto simp: strip_suffix_def ends_with_iff)

lemma strip_suffix_None_iff: "strip_suffix suf s = None \<longleftrightarrow> \<not> ends_with s suf"
  by (simp add: strip_suffix_def)

lemma ends_with_char: "ends_with s [c] \<longleftrightarrow> s \<noteq> [] \<and> last s = c"
  by (auto simp: ends_with_iff) (metis append_butlast_last_id)

section \<open>UTF-8, white space and case\<close>

text \<open>\<open>std::str::from_utf8\<close>: well-formed UTF-8 (RFC 3629; no overlong forms, no surrogates).\<close>

definition byte_in :: "int \<Rightarrow> int \<Rightarrow> char \<Rightarrow> bool" where
  "byte_in lo hi c \<longleftrightarrow> lo \<le> byte c \<and> byte c \<le> hi"

fun utf8_valid :: "string \<Rightarrow> bool" where
  "utf8_valid [] = True"
| "utf8_valid (a # s) =
     (if byte_in 0 127 a then utf8_valid s
      else if byte_in 194 223 a then
        (case s of b # s' \<Rightarrow> byte_in 128 191 b \<and> utf8_valid s' | _ \<Rightarrow> False)
      else if byte_in 224 239 a then
        (case s of b # c # s' \<Rightarrow>
           byte_in (if byte a = 224 then 160 else 128) (if byte a = 237 then 159 else 191) b
             \<and> byte_in 128 191 c \<and> utf8_valid s'
         | _ \<Rightarrow> False)
      else if byte_in 240 244 a then
        (case s of b # c # d # s' \<Rightarrow>
           byte_in (if byte a = 240 then 144 else 128) (if byte a = 244 then 143 else 191) b
             \<and> byte_in 128 191 c \<and> byte_in 128 191 d \<and> utf8_valid s'
         | _ \<Rightarrow> False)
      else False)"

definition is_ascii :: "string \<Rightarrow> bool" where
  "is_ascii s \<longleftrightarrow> list_all (\<lambda>c. byte c < 128) s"

lemma utf8_valid_ascii: "is_ascii s \<Longrightarrow> utf8_valid s"
  by (induction s) (auto simp: is_ascii_def byte_in_def)

text \<open>
  Length of the \<open>White_Space\<close> character a string starts with, 0 when it starts with
  another character.
\<close>

fun ws_len :: "string \<Rightarrow> nat" where
  "ws_len (a # b # c # s) =
     (if byte_in 9 13 a \<or> byte a = 32 then 1
      else if byte a = 194 \<and> (byte b = 133 \<or> byte b = 160) then 2
      else if byte a = 225 \<and> byte b = 154 \<and> byte c = 128 then 3
      else if byte a = 226 \<and> byte b = 128 \<and>
        (byte_in 128 138 c \<or> byte c = 168 \<or> byte c = 169 \<or> byte c = 175) then 3
      else if byte a = 226 \<and> byte b = 129 \<and> byte c = 159 then 3
      else if byte a = 227 \<and> byte b = 128 \<and> byte c = 128 then 3
      else 0)"
| "ws_len [a, b] =
     (if byte_in 9 13 a \<or> byte a = 32 then 1
      else if byte a = 194 \<and> (byte b = 133 \<or> byte b = 160) then 2
      else 0)"
| "ws_len [a] = (if byte_in 9 13 a \<or> byte a = 32 then 1 else 0)"
| "ws_len [] = 0"

lemma ws_len_ascii:
  "byte a < 128 \<Longrightarrow> ws_len (a # s) = (if byte_in 9 13 a \<or> byte a = 32 then 1 else 0)"
  by (cases s; cases "tl s") (auto simp: byte_in_def)

text \<open>
  \<open>str::split_whitespace\<close>: the maximal runs of non-white-space; \<open>cur\<close> is the piece being
  read.
\<close>

function ws_pieces :: "string \<Rightarrow> string \<Rightarrow> string list" where
  "ws_pieces cur [] = (if cur = [] then [] else [cur])"
| "ws_pieces cur (x # xs) =
     (if 0 < ws_len (x # xs)
      then (if cur = [] then [] else [cur]) @ ws_pieces [] (drop (ws_len (x # xs) - 1) xs)
      else ws_pieces (cur @ [x]) xs)"
  by pat_completeness auto
termination
  by (relation "measure (\<lambda>(cur, s). length s)") auto

definition split_whitespace :: "string \<Rightarrow> string list" where
  "split_whitespace s = ws_pieces [] s"

definition plain :: "string \<Rightarrow> bool" where
  "plain s \<longleftrightarrow> list_all (\<lambda>c. byte_in 33 126 c) s"

lemma plain_Cons [simp]: "plain (c # s) \<longleftrightarrow> byte_in 33 126 c \<and> plain s"
  by (simp add: plain_def)

lemma plain_Nil [simp]: "plain []"
  by (simp add: plain_def)

lemma plain_append [simp]: "plain (s @ t) \<longleftrightarrow> plain s \<and> plain t"
  by (simp add: plain_def)

lemma plain_no_space: "plain s \<Longrightarrow> byte c < 33 \<Longrightarrow> c \<notin> set s"
  by (auto simp: plain_def byte_in_def list_all_iff)

lemma ws_pieces_plain: "plain s \<Longrightarrow> ws_pieces cur (s @ t) = ws_pieces (cur @ s) t"
proof (induction s arbitrary: cur)
  case Nil
  then show ?case by simp
next
  case (Cons x s)
  then have "byte x < 128" "\<not> byte_in 9 13 x" "byte x \<noteq> 32" by (auto simp: byte_in_def)
  then have "ws_len (x # s @ t) = 0" by (simp add: ws_len_ascii)
  with Cons show ?case by simp
qed

lemma ws_pieces_space: "byte x = 32 \<Longrightarrow>
  ws_pieces cur (x # s) = (if cur = [] then [] else [cur]) @ ws_pieces [] s"
  by (simp add: ws_len_ascii)

text \<open>
  \<open>str::to_lowercase\<close>.  On ASCII text it is the ASCII mapping; what Unicode's tables do to
  other text is the parameter \<open>uni\<close>.
\<close>

definition ascii_lower :: "char \<Rightarrow> char" where
  "ascii_lower c = (if byte_in 65 90 c then char_of (byte c + 32) else c)"

definition to_lowercase :: "(string \<Rightarrow> string) \<Rightarrow> string \<Rightarrow> string" where
  "to_lowercase uni s = (if is_ascii s then map ascii_lower s else uni s)"

lemma byte_ascii_lower: "byte (ascii_lower c) = (if byte_in 65 90 c then byte c + 32 else byte c)"
  by (simp add: ascii_lower_def byte_in_def)

lemma ascii_lower_idem [simp]: "ascii_lower (ascii_lower c) = ascii_lower c"
proof -
  have "\<not> byte_in 65 90 (ascii_lower c)"
    by (auto simp: byte_in_def byte_ascii_lower)
  then show ?thesis by (simp add: ascii_lower_def [of "ascii_lower c"])
qed

lemma is_ascii_lower [simp]: "is_ascii (map ascii_lower s) = is_ascii s"
  by (induction s) (auto simp: is_ascii_def byte_ascii_lower byte_in_def)

lemma to_lowercase_idem: "is_ascii s \<Longrightarrow> to_lowercase uni (to_lowercase uni s) = to_lowercase uni s"
  by (simp add: to_lowercase_def)

lemma to_lowercase_append:
  "is_ascii s \<Longrightarrow> is_ascii t \<Longrightarrow>
     to_lowercase uni (s @ t) = to_lowercase uni s @ to_lowercase uni t"
  by (simp add: to_lowercase_def is_ascii_def)

section \<open>Numbers in text\<close>

definition digit_char :: "int \<Rightarrow> char" where
  "digit_char d = char_of (if d < 10 then 48 + d else 87 + d)"

text \<open>\<open>char::to_digit(radix)\<close>.\<close>

definition to_digit :: "int \<Rightarrow> char \<Rightarrow> int option" where
  "to_digit radix c =
     (let d = (if byte_in 48 57 c then byte c - 48
               else if byte_in 97 122 c then byte c - 87
               else if byte_in 65 90 c then byte c - 55
               else radix)
      in if d < radix then Some d else None)"

lemma byte_digit_char: "0 \<le> d \<Longrightarrow> d < 36 \<Longrightarrow> byte (digit_char d) = (if d < 10 then 48 + d else 87 + d)"
  by (simp add: digit_char_def)

lemma to_digit_digit_char [simp]:
  "0 \<le> d \<Longrightarrow> d < radix \<Longrightarrow> radix \<le> 36 \<Longrightarrow> to_digit radix (digit_char d) = Some d"
  by (auto simp: to_digit_def byte_in_def byte_digit_char Let_def)

lemma to_digit_bounds: "to_digit radix c = Some d \<Longrightarrow> 0 \<le> d \<and> d < radix"
  by (auto simp: to_digit_def byte_in_def Let_def split: if_splits)

fun digits_value :: "int \<Rightarrow> int list \<Rightarrow> int" where
  "digits_value radix [] = 0"
| "digits_value radix (d # ds) = d * radix ^ length ds + digits_value radix ds"

text \<open>Digits of a number, most significant first; zero has one digit.\<close>

function to_digits :: "int \<Rightarrow> int \<Rightarrow> int list" where
  "to_digits radix n =
     (if radix < 2 \<or> n < radix then [n] else to_digits radix (n div radix) @ [n mod radix])"
  by pat_completeness auto
termination
proof (relation "measure (\<lambda>(radix, n). nat n)")
  fix radix n :: int
  assume "\<not> (radix < 2 \<or> n < radix)"
  then have "n div radix < n" by (intro int_div_less_self) auto
  with \<open>\<not> (radix < 2 \<or> n < radix)\<close>
  show "((radix, n div radix), (radix, n)) \<in> measure (\<lambda>(radix, n). nat n)" by simp
qed simp

declare to_digits.simps [simp del]

definition show_int :: "int \<Rightarrow> int \<Rightarrow> string" where
  "show_int radix n = map digit_char (to_digits radix n)"

lemma digits_value_append:
  "digits_value radix (xs @ ys) = digits_value radix xs * radix ^ length ys + digits_value radix ys"
  by (induction xs) (auto simp: power_add algebra_simps)

lemma to_digits_value [simp]: "digits_value radix (to_digits radix n) = n"
proof (induction radix n rule: to_digits.induct)
  case (1 radix n)
  then show ?case
    by (subst to_digits.simps) (auto simp: digits_value_append)
qed

lemma to_digits_bound:
  "2 \<le> radix \<Longrightarrow> 0 \<le> n \<Longrightarrow> d \<in> set (to_digits radix n) \<Longrightarrow> 0 \<le> d \<and> d < radix"
proof (induction radix n rule: to_digits.induct)
  case (1 radix n)
  show ?case
  proof (cases "n < radix")
    case True
    with 1 show ?thesis by (auto simp: to_digits.simps [of radix n])
  next
    case False
    with 1 have "d \<in> set (to_digits radix (n div radix)) \<or> d = n mod radix"
      by (auto simp: to_digits.simps [of radix n])
    with 1 False show ?thesis by (auto simp: pos_imp_zdiv_nonneg_iff)
  qed
qed

lemma to_digits_not_Nil [simp]: "to_digits radix n \<noteq> []"
  by (subst to_digits.simps) simp

lemma length_to_digits:
  "2 \<le> radix \<Longrightarrow> n < radix ^ k \<Longrightarrow> 0 < k \<Longrightarrow> length (to_digits radix n) \<le> k"
proof (induction radix n arbitrary: k rule: to_digits.induct)
  case (1 radix n)
  show ?case
  proof (cases "n < radix")
    case True
    with 1 show ?thesis by (subst to_digits.simps) simp
  next
    case False
    obtain j where k: "k = Suc j" using 1 by (cases k) auto
    with False 1 have j: "0 < j" by (cases j) auto
    have "n div radix < radix ^ j"
    proof (rule ccontr)
      assume "\<not> n div radix < radix ^ j"
      then have "radix * radix ^ j \<le> radix * (n div radix)"
        using 1 by (intro mult_left_mono) auto
      also have "\<dots> \<le> n"
        using 1 by (simp add: minus_mod_eq_mult_div [symmetric])
      finally show False using 1 k by simp
    qed
    with 1 False j have "length (to_digits radix (n div radix)) \<le> j" by auto
    with False k show ?thesis by (subst to_digits.simps) auto
  qed
qed

lemma to_digits_hd: "2 \<le> radix \<Longrightarrow> 0 < n \<Longrightarrow> hd (to_digits radix n) \<noteq> 0"
proof (induction radix n rule: to_digits.induct)
  case (1 radix n)
  show ?case
  proof (cases "n < radix")
    case True
    with 1 show ?thesis by (subst to_digits.simps) simp
  next
    case False
    with 1 have "0 < n div radix" by (simp add: pos_imp_zdiv_pos_iff)
    with 1 False show ?thesis by (subst to_digits.simps) (auto simp: hd_append)
  qed
qed

text \<open>\<open>u32::from_str\<close>: an optional plus sign, decimal digits, no overflow.\<close>

definition parse_u32 :: "string \<Rightarrow> 32 word option" where
  "parse_u32 s =
     (let ds = (case s of c # t \<Rightarrow> if c = CHR ''+'' then t else s | [] \<Rightarrow> s)
      in if ds \<noteq> [] \<and> list_all (\<lambda>c. to_digit 10 c \<noteq> None) ds then
           (let n = digits_value 10 (map (\<lambda>c. the (to_digit 10 c)) ds)
            in if n < 2 ^ 32 then Some (word_of_int n) else None)
         else None)"

end
