(* ===== verification/Ip_Addr.thy ===== *)
theory Ip_Addr
  imports Rust_Str "HOL-Library.Monad_Syntax"
begin

text \<open>
  \<open>std::net\<close> as the program uses it: IPv4, IPv6 and socket addresses, \<open>FromStr\<close> (the
  recursive-descent parser of the standard library, which every address of a configuration
  file, of \<open>/etc/resolv.conf\<close> and of a reverse lookup goes through) and \<open>Display\<close>.  The
  library's theorem here is that parsing what was printed gives the address back.
\<close>

section \<open>Addresses\<close>

type_synonym u8 = "8 word"
type_synonym u16 = "16 word"
type_synonym u32 = "32 word"

datatype ipv4 = Ipv4 u8 u8 u8 u8

datatype ipv6 = Ipv6 u16 u16 u16 u16 u16 u16 u16 u16

datatype ip_addr = V4 ipv4 | V6 ipv6

fun is_v4 :: "ip_addr \<Rightarrow> bool" where
  "is_v4 (V4 _) = True"
| "is_v4 (V6 _) = False"

text \<open>\<open>SocketAddrV6\<close> also holds a flow label, which the program always sets to 0.\<close>

datatype socket_addr = Sock4 ipv4 u16 | Sock6 ipv6 u16 u32 u32

text \<open>\<open>SocketAddr::new\<close> and \<open>SocketAddr::ip\<close>.\<close>

fun socket_new :: "ip_addr \<Rightarrow> u16 \<Rightarrow> socket_addr" where
  "socket_new (V4 ip) port = Sock4 ip port"
| "socket_new (V6 ip) port = Sock6 ip port 0 0"

fun socket_ip :: "socket_addr \<Rightarrow> ip_addr" where
  "socket_ip (Sock4 ip port) = V4 ip"
| "socket_ip (Sock6 ip port flow scope) = V6 ip"

fun socket_port :: "socket_addr \<Rightarrow> u16" where
  "socket_port (Sock4 ip port) = port"
| "socket_port (Sock6 ip port flow scope) = port"

lemma socket_new_ip [simp]: "socket_ip (socket_new ip port) = ip"
  by (cases ip) auto

lemma socket_new_port [simp]: "socket_port (socket_new ip port) = port"
  by (cases ip) auto

lemma socket_new_inject: "socket_new a p = socket_new b q \<longleftrightarrow> a = b \<and> p = q"
  by (cases a; cases b) auto

section \<open>The parser of the standard library\<close>

text \<open>
  A parser takes the text that is left and returns a value with the rest, or \<open>None\<close>; the
  text is then as it was (\<open>read_atomically\<close>).
\<close>

type_synonym 'a parser = "string \<Rightarrow> ('a \<times> string) option"

fun take_digits :: "int \<Rightarrow> string \<Rightarrow> int list \<times> string" where
  "take_digits radix [] = ([], [])"
| "take_digits radix (c # s) =
     (case to_digit radix c of
        None \<Rightarrow> ([], c # s)
      | Some d \<Rightarrow> (case take_digits radix s of (ds, r) \<Rightarrow> (d # ds, r)))"

definition read_number :: "int \<Rightarrow> nat \<Rightarrow> bool \<Rightarrow> int \<Rightarrow> int parser" where
  "read_number radix max_digits allow_zero_prefix max_value s =
     (case take_digits radix s of (ds, r) \<Rightarrow>
        if max_digits < length ds then None
        else if ds = [] then None
        else if \<not> allow_zero_prefix \<and> hd ds = 0 \<and> 1 < length ds then None
        else if digits_value radix ds \<le> max_value then Some (digits_value radix ds, r)
        else None)"

fun read_char :: "char \<Rightarrow> string \<Rightarrow> string option" where
  "read_char c [] = None"
| "read_char c (x # s) = (if x = c then Some s else None)"

definition read_octet :: "u8 parser" where
  "read_octet s = map_option (\<lambda>(n, r). (word_of_int n, r)) (read_number 10 3 False 255 s)"

definition read_ipv4 :: "ipv4 parser" where
  "read_ipv4 s = do {
     (a, s) \<leftarrow> read_octet s;
     s \<leftarrow> read_char CHR ''.'' s;
     (b, s) \<leftarrow> read_octet s;
     s \<leftarrow> read_char CHR ''.'' s;
     (c, s) \<leftarrow> read_octet s;
     s \<leftarrow> read_char CHR ''.'' s;
     (d, s) \<leftarrow> read_octet s;
     Some (Ipv4 a b c d, s)
   }"

definition read_group :: "u16 parser" where
  "read_group s = map_option (\<lambda>(n, r). (word_of_int n, r)) (read_number 16 4 True 65535 s)"

text \<open>\<open>read_separator(':', i, inner)\<close>: no separator before the first group.\<close>

definition read_separated :: "bool \<Rightarrow> 'a parser \<Rightarrow> 'a parser" where
  "read_separated is_first inner s =
     (if is_first then inner s else Option.bind (read_char CHR '':'' s) inner)"

fun ipv4_groups :: "ipv4 \<Rightarrow> u16 list" where
  "ipv4_groups (Ipv4 a b c d) =
     [word_of_int (256 * uint a + uint b), word_of_int (256 * uint c + uint d)]"

text \<open>
  \<open>read_groups\<close> with \<open>n\<close> slots left: the groups read, whether a dotted IPv4 address ended
  them, and the rest of the text.
\<close>

fun read_groups :: "nat \<Rightarrow> bool \<Rightarrow> string \<Rightarrow> u16 list \<times> bool \<times> string" where
  "read_groups 0 is_first s = ([], False, s)"
| "read_groups (Suc n) is_first s =
     (case (if 0 < n then read_separated is_first read_ipv4 s else None) of
        Some (a, r) \<Rightarrow> (ipv4_groups a, True, r)
      | None \<Rightarrow>
          (case read_separated is_first read_group s of
             None \<Rightarrow> ([], False, s)
           | Some (g, r) \<Rightarrow>
               (case read_groups n False r of (gs, v4, r') \<Rightarrow> (g # gs, v4, r'))))"

fun ipv6_of_groups :: "u16 list \<Rightarrow> ipv6 option" where
  "ipv6_of_groups [a, b, c, d, e, f, g, h] = Some (Ipv6 a b c d e f g h)"
| "ipv6_of_groups _ = None"

definition read_ipv6 :: "ipv6 parser" where
  "read_ipv6 s =
     (case read_groups 8 True s of (head, head_ipv4, r) \<Rightarrow>
        if length head = 8 then map_option (\<lambda>ip. (ip, r)) (ipv6_of_groups head)
        else if head_ipv4 then None
        else do {
          r \<leftarrow> read_char CHR '':'' r;
          r \<leftarrow> read_char CHR '':'' r;
          (case read_groups (8 - (length head + 1)) True r of (tail, _, r') \<Rightarrow>
             map_option (\<lambda>ip. (ip, r'))
               (ipv6_of_groups (head @ replicate (8 - length head - length tail) 0 @ tail)))
        })"

text \<open>\<open>parse_with\<close>: all of the text must be read.\<close>

definition parse_with :: "'a parser \<Rightarrow> string \<Rightarrow> 'a option" where
  "parse_with p s = (case p s of Some (a, []) \<Rightarrow> Some a | _ \<Rightarrow> None)"

definition parse_ipv4 :: "string \<Rightarrow> ipv4 option" where
  "parse_ipv4 s = (if 15 < length s then None else parse_with read_ipv4 s)"

definition parse_ipv6 :: "string \<Rightarrow> ipv6 option" where
  "parse_ipv6 s = parse_with read_ipv6 s"

definition read_ip :: "ip_addr parser" where
  "read_ip s =
     (case read_ipv4 s of
        Some (a, r) \<Rightarrow> Some (V4 a, r)
      | None \<Rightarrow> map_option (\<lambda>(a, r). (V6 a, r)) (read_ipv6 s))"

definition parse_ip :: "string \<Rightarrow> ip_addr option" where
  "parse_ip s = parse_with read_ip s"

section \<open>Printing\<close>

fun show_ipv4 :: "ipv4 \<Rightarrow> string" where
  "show_ipv4 (Ipv4 a b c d) = join ''.'' (map (\<lambda>o'. show_int 10 (uint o')) [a, b, c, d])"

fun groups :: "ipv6 \<Rightarrow> u16 list" where
  "groups (Ipv6 a b c d e f g h) = [a, b, c, d, e, f, g, h]"

definition show_group :: "u16 \<Rightarrow> string" where
  "show_group g = show_int 16 (uint g)"

definition show_groups :: "u16 list \<Rightarrow> string" where
  "show_groups gs = join '':'' (map show_group gs)"

text \<open>
  The first longest run of zero groups: \<open>Display\<close>'s loop with the run being read
  (\<open>cs\<close>, \<open>cl\<close>: start and length) and the longest one so far (\<open>ls\<close>, \<open>ll\<close>).
\<close>

fun zero_span :: "nat \<Rightarrow> nat \<times> nat \<Rightarrow> nat \<times> nat \<Rightarrow> u16 list \<Rightarrow> nat \<times> nat" where
  "zero_span i cur longest [] = longest"
| "zero_span i (cs, cl) (ls, ll) (g # gs) =
     (if g = 0 then
        (let cur = (if cl = 0 then i else cs, cl + 1)
         in zero_span (i + 1) cur (if ll < snd cur then cur else (ls, ll)) gs)
      else zero_span (i + 1) (0, 0) (ls, ll) gs)"

fun to_ipv4_mapped :: "ipv6 \<Rightarrow> ipv4 option" where
  "to_ipv4_mapped (Ipv6 a b c d e f g h) =
     (if a = 0 \<and> b = 0 \<and> c = 0 \<and> d = 0 \<and> e = 0 \<and> f = 0xffff then
        Some (Ipv4 (word_of_int (uint g div 256)) (word_of_int (uint g mod 256))
                   (word_of_int (uint h div 256)) (word_of_int (uint h mod 256)))
      else None)"

definition show_ipv6 :: "ipv6 \<Rightarrow> string" where
  "show_ipv6 ip =
     (case to_ipv4_mapped ip of
        Some v4 \<Rightarrow> ''::ffff:'' @ show_ipv4 v4
      | None \<Rightarrow>
          (case zero_span 0 (0, 0) (0, 0) (groups ip) of (start, len) \<Rightarrow>
             if 1 < len then
               show_groups (take start (groups ip)) @ ''::'' @
               show_groups (drop (start + len) (groups ip))
             else show_groups (groups ip)))"

fun show_ip :: "ip_addr \<Rightarrow> string" where
  "show_ip (V4 a) = show_ipv4 a"
| "show_ip (V6 a) = show_ipv6 a"

fun show_socket :: "socket_addr \<Rightarrow> string" where
  "show_socket (Sock4 ip port) = show_ipv4 ip @ '':'' @ show_int 10 (uint port)"
| "show_socket (Sock6 ip port flow scope) =
     ''['' @ show_ipv6 ip @
     (if scope = 0 then [] else ''%'' @ show_int 10 (uint scope)) @
     '']:'' @ show_int 10 (uint port)"

section \<open>Parsing what was printed\<close>

subsection \<open>Numbers\<close>

definition stops :: "int \<Rightarrow> string \<Rightarrow> bool" where
  "stops radix r \<longleftrightarrow> (case r of [] \<Rightarrow> True | c # _ \<Rightarrow> to_digit radix c = None)"

lemma stops_Nil [simp]: "stops radix []"
  by (simp add: stops_def)

lemma stops_Cons [simp]: "stops radix (c # r) \<longleftrightarrow> to_digit radix c = None"
  by (simp add: stops_def)

lemma not_digits [simp]:
  "to_digit 10 CHR ''.'' = None" "to_digit 10 CHR '':'' = None" "to_digit 16 CHR '':'' = None"
  "to_digit 16 CHR ''.'' = None"
  by code_simp+

lemma take_digits_printed:
  "\<forall>d \<in> set ds. 0 \<le> d \<and> d < radix \<Longrightarrow> radix \<le> 36 \<Longrightarrow> stops radix r \<Longrightarrow>
     take_digits radix (map digit_char ds @ r) = (ds, r)"
proof (induction ds)
  case Nil
  then show ?case by (cases r) auto
next
  case (Cons d ds)
  then show ?case by simp
qed

lemma take_digits_split:
  "take_digits radix s = (ds, r) \<Longrightarrow>
     \<exists>p. s = p @ r \<and> (\<forall>c \<in> set p. to_digit radix c \<noteq> None)"
proof (induction s arbitrary: ds)
  case Nil
  then show ?case by simp
next
  case (Cons c s)
  show ?case
  proof (cases "to_digit radix c")
    case None
    with Cons.prems show ?thesis by auto
  next
    case (Some d)
    with Cons.prems obtain ds' where "take_digits radix s = (ds', r)"
      by (auto split: prod.splits)
    from Cons.IH [OF this] obtain p
      where "s = p @ r" "\<forall>c \<in> set p. to_digit radix c \<noteq> None" by blast
    with Some have "c # s = (c # p) @ r \<and> (\<forall>c \<in> set (c # p). to_digit radix c \<noteq> None)" by simp
    then show ?thesis by blast
  qed
qed

lemma read_number_printed:
  assumes radix: "2 \<le> radix" "radix \<le> 36" and n: "0 \<le> n" "n < radix ^ max_digits" "n \<le> max_value"
    and "0 < max_digits" and "stops radix r"
  shows "read_number radix max_digits zero max_value (show_int radix n @ r) = Some (n, r)"
proof -
  let ?ds = "to_digits radix n"
  have "take_digits radix (show_int radix n @ r) = (?ds, r)"
    unfolding show_int_def using assms to_digits_bound [of radix n]
    by (intro take_digits_printed) auto
  moreover have "\<not> (hd ?ds = 0 \<and> 1 < length ?ds)"
  proof (cases "n = 0")
    case True
    with radix show ?thesis by (simp add: to_digits.simps [of radix 0])
  next
    case False
    with assms show ?thesis by (simp add: to_digits_hd)
  qed
  moreover have "length ?ds \<le> max_digits"
    using assms by (intro length_to_digits)
  ultimately show ?thesis
    using n by (simp add: read_number_def)
qed

lemma uint_u8_less [simp]: "uint (a :: u8) < 256" "uint (a :: u8) \<le> 255" "uint (a :: u8) < 1000"
  using uint_lt2p [of a] by simp_all

lemma uint_u16_less [simp]: "uint (g :: u16) < 65536" "uint (g :: u16) \<le> 65535"
  using uint_lt2p [of g] by simp_all

subsection \<open>IPv4\<close>

lemma read_octet_printed: "stops 10 r \<Longrightarrow> read_octet (show_int 10 (uint a) @ r) = Some (a, r)"
  by (simp add: read_octet_def read_number_printed)

lemma read_ipv4_printed: "stops 10 r \<Longrightarrow> read_ipv4 (show_ipv4 ip @ r) = Some (ip, r)"
  by (cases ip) (simp add: read_ipv4_def read_octet_printed)

lemma length_show_octet: "length (show_int 10 (uint (a :: u8))) \<le> 3"
  by (simp add: show_int_def length_to_digits)

lemma length_show_ipv4: "length (show_ipv4 ip) \<le> 15"
proof (cases ip)
  case (Ipv4 a b c d)
  show ?thesis
    using length_show_octet [of a] length_show_octet [of b]
      length_show_octet [of c] length_show_octet [of d]
    by (simp add: Ipv4)
qed

lemma parse_show_ipv4 [simp]: "parse_ipv4 (show_ipv4 ip) = Some ip"
  using read_ipv4_printed [of "[]" ip] length_show_ipv4 [of ip]
  by (simp add: parse_ipv4_def parse_with_def)

subsection \<open>IPv6\<close>

definition hex_text :: "string \<Rightarrow> bool" where
  "hex_text h \<longleftrightarrow> (\<forall>c \<in> set h. to_digit 16 c \<noteq> None)"

lemma hex_text_show_group [simp]: "hex_text (show_group g)"
  using to_digits_bound [of 16 "uint g"]
  by (auto simp: hex_text_def show_group_def show_int_def)

text \<open>No group of an IPv6 address is mistaken for a dotted IPv4 address.\<close>

lemma read_ipv4_on_group:
  assumes h: "hex_text h" and rest: "rest = [] \<or> hd rest = CHR '':''"
  shows "read_ipv4 (h @ rest) = None"
proof (rule ccontr)
  assume "read_ipv4 (h @ rest) \<noteq> None"
  then obtain a r t where oct: "read_octet (h @ rest) = Some (a, r)" and r: "r = CHR ''.'' # t"
    by (auto simp: read_ipv4_def Option.bind_eq_Some_conv elim!: read_char.elims split: if_splits)
  from oct obtain ds where "take_digits 10 (h @ rest) = (ds, r)"
    by (auto simp: read_octet_def read_number_def split: prod.splits if_splits)
  then obtain p where p: "h @ rest = p @ CHR ''.'' # t" "\<forall>c \<in> set p. to_digit 10 c \<noteq> None"
    using take_digits_split r by blast
  have "CHR ''.'' \<notin> set h" using h by (auto simp: hex_text_def)
  with p(1) obtain q where q: "p = h @ q" "rest = q @ CHR ''.'' # t"
    by (auto simp: append_eq_append_conv2 append_eq_Cons_conv)
  from rest q(2) have "CHR '':'' \<in> set q" by (cases q) auto
  with p(2) q(1) have "to_digit 10 CHR '':'' \<noteq> None" by (auto simp del: not_digits)
  then show False by simp
qed

lemma read_group_printed: "stops 16 r \<Longrightarrow> read_group (show_group g @ r) = Some (g, r)"
  by (simp add: read_group_def show_group_def read_number_printed)

lemma read_group_colon [simp]: "read_group (CHR '':'' # s) = None" "read_group [] = None"
  by (simp_all add: read_group_def read_number_def)

lemma read_ipv4_colon [simp]: "read_ipv4 (CHR '':'' # s) = None" "read_ipv4 [] = None"
  using read_ipv4_on_group [of "[]" "CHR '':'' # s"] read_ipv4_on_group [of "[]" "[]"]
  by (simp_all add: hex_text_def)

text \<open>
  What a group may be printed as: hexadecimal digits that \<open>read_group\<close> reads back.  The lists of
  groups printed in such a form are read back by \<open>read_groups\<close>.
\<close>

definition groups_end :: "string \<Rightarrow> bool" where
  "groups_end r \<longleftrightarrow> r = [] \<or> (\<exists>t. r = CHR '':'' # CHR '':'' # t)"

lemma groups_end_simps [simp]: "groups_end []" "groups_end (CHR '':'' # CHR '':'' # t)"
  by (simp_all add: groups_end_def)

locale group_format =
  fixes print :: "u16 \<Rightarrow> string"
  assumes print_hex: "hex_text (print g)"
    and read_print: "stops 16 r \<Longrightarrow> read_group (print g @ r) = Some (g, r)"
begin

lemma more_stops: "groups_end r \<Longrightarrow> stops 16 (concat (map (\<lambda>g. CHR '':'' # print g) gs) @ r)"
  by (cases gs) (auto simp: groups_end_def)

lemma more_colon: "groups_end r \<Longrightarrow>
    concat (map (\<lambda>g. CHR '':'' # print g) gs) @ r = [] \<or>
    hd (concat (map (\<lambda>g. CHR '':'' # print g) gs) @ r) = CHR '':''"
  by (cases gs) (auto simp: groups_end_def)

lemma read_more:
  "length gs \<le> n \<Longrightarrow> groups_end r \<Longrightarrow>
     read_groups n False (concat (map (\<lambda>g. CHR '':'' # print g) gs) @ r) = (gs, False, r)"
proof (induction gs arbitrary: n)
  case Nil
  then show ?case
    by (cases n) (auto simp: groups_end_def read_separated_def)
next
  case (Cons g gs)
  then obtain k where n: "n = Suc k" and k: "length gs \<le> k" by (cases n) auto
  let ?more = "concat (map (\<lambda>g. CHR '':'' # print g) gs) @ r"
  have "read_ipv4 (print g @ ?more) = None"
    using Cons.prems by (intro read_ipv4_on_group print_hex more_colon)
  moreover have "read_group (print g @ ?more) = Some (g, ?more)"
    using Cons.prems by (intro read_print more_stops)
  ultimately show ?case
    using k by (auto simp: n read_separated_def Cons.IH [OF k Cons.prems(2)])
qed

lemma join_Cons_more:
  "join '':'' (map print (g # gs)) = print g @ concat (map (\<lambda>g. CHR '':'' # print g) gs)"
  by (induction gs arbitrary: g) auto

lemma read_first:
  assumes "length gs \<le> n" "groups_end r"
  shows "read_groups n True (join '':'' (map print gs) @ r) = (gs, False, r)"
proof (cases gs)
  case Nil
  with assms show ?thesis
    by (cases n) (auto simp: groups_end_def read_separated_def)
next
  case (Cons g gs')
  with assms obtain k where n: "n = Suc k" and k: "length gs' \<le> k" by (cases n) auto
  let ?more = "concat (map (\<lambda>g. CHR '':'' # print g) gs') @ r"
  have line: "join '':'' (map print gs) @ r = print g @ ?more"
    by (simp add: Cons join_Cons_more del: list.map(2))
  have "read_ipv4 (print g @ ?more) = None"
    using assms by (intro read_ipv4_on_group print_hex more_colon)
  moreover have "read_group (print g @ ?more) = Some (g, ?more)"
    using assms by (intro read_print more_stops)
  ultimately show ?thesis
    using k unfolding line by (auto simp: n Cons read_separated_def read_more [OF k assms(2)])
qed

lemma read_all: "read_ipv6 (join '':'' (map print (groups ip))) = Some (ip, [])"
proof -
  have "length (groups ip) = 8" "ipv6_of_groups (groups ip) = Some ip" by (cases ip; simp)+
  then show ?thesis using read_first [of "groups ip" 8 "[]"] by (simp add: read_ipv6_def)
qed

lemma parse_all: "parse_ip (join '':'' (map print (groups ip))) = Some (V6 ip)"
proof -
  obtain g gs where gs: "groups ip = g # gs" "gs \<noteq> []" by (cases ip) auto
  then have "join '':'' (map print (groups ip)) =
      print g @ CHR '':'' # (print (hd gs) @ concat (map (\<lambda>g. CHR '':'' # print g) (tl gs)))"
    unfolding gs(1) join_Cons_more using gs(2) by (cases gs) simp_all
  then have "read_ipv4 (join '':'' (map print (groups ip))) = None"
    using read_ipv4_on_group [OF print_hex] by simp
  then show ?thesis by (simp add: parse_ip_def parse_with_def read_ip_def read_all)
qed

end

interpretation printed: group_format show_group
  by unfold_locales (simp_all add: read_group_printed)

definition more_groups :: "u16 list \<Rightarrow> string" where
  "more_groups gs = concat (map (\<lambda>g. CHR '':'' # show_group g) gs)"

lemma more_groups_Nil [simp]: "more_groups [] = []"
  by (simp add: more_groups_def)

lemma show_groups_Cons: "show_groups (g # gs) = show_group g @ more_groups gs"
  unfolding show_groups_def more_groups_def by (rule printed.join_Cons_more)

lemmas read_first_groups = printed.read_first [folded show_groups_def]

lemma groups_length [simp]: "length (groups ip) = 8"
  by (cases ip) simp

lemma ipv6_of_groups_groups [simp]: "ipv6_of_groups (groups ip) = Some ip"
  by (cases ip) simp

lemmas read_ipv6_full = printed.read_all [folded show_groups_def]

lemma read_ipv6_compressed:
  assumes "length hs + length ts < 8"
    and "groups ip = hs @ replicate (8 - length hs - length ts) 0 @ ts"
  shows "read_ipv6 (show_groups hs @ ''::'' @ show_groups ts) = Some (ip, [])"
proof -
  have h: "read_groups 8 True (show_groups hs @ ''::'' @ show_groups ts) =
      (hs, False, ''::'' @ show_groups ts)"
    using assms by (intro read_first_groups) auto
  have t: "read_groups (8 - (length hs + 1)) True (show_groups ts) = (ts, False, [])"
    using assms read_first_groups [of ts "8 - (length hs + 1)" "[]"] by simp
  from assms have "ipv6_of_groups (hs @ replicate (8 - length hs - length ts) 0 @ ts) = Some ip"
    by (metis ipv6_of_groups_groups)
  with assms(1) h t show ?thesis by (simp add: read_ipv6_def)
qed

text \<open>\<open>Display\<close>'s loop finds a run of zero groups inside the address.\<close>

definition zero_run :: "u16 list \<Rightarrow> nat \<Rightarrow> nat \<times> nat \<Rightarrow> bool" where
  "zero_run gs i p \<longleftrightarrow> fst p + snd p \<le> i \<and> (\<forall>k < snd p. gs ! (fst p + k) = 0)"

lemma zero_run_mono: "zero_run gs i p \<Longrightarrow> i \<le> j \<Longrightarrow> zero_run gs j p"
  by (auto simp: zero_run_def)

lemma zero_run_extend:
  "zero_run gs i (cs, cl) \<Longrightarrow> 0 < cl \<longrightarrow> cs + cl = i \<Longrightarrow> gs ! i = 0 \<Longrightarrow>
     zero_run gs (Suc i) (if cl = 0 then i else cs, cl + 1)"
  by (auto simp: zero_run_def less_Suc_eq)

lemma zero_span_run:
  assumes "zero_run gs i (cs, cl)" "0 < cl \<longrightarrow> cs + cl = i" "zero_run gs i (ls, ll)"
    and "i \<le> length gs"
  shows "zero_run gs (length gs) (zero_span i (cs, cl) (ls, ll) (drop i gs))"
  using assms
proof (induction "drop i gs" arbitrary: i cs cl ls ll)
  case Nil
  then show ?case by (auto intro: zero_run_mono)
next
  case (Cons g rest)
  have i: "i < length gs" using Cons.hyps(2) by (metis drop_eq_Nil leI list.distinct(1))
  have g: "gs ! i = g" and rest: "rest = drop (Suc i) gs"
    using Cons.hyps(2) i by (metis Cons_nth_drop_Suc list.inject)+
  have eq: "drop i gs = g # drop (Suc i) gs" using Cons.hyps(2) rest by simp
  have longest: "zero_run gs (Suc i) (ls, ll)"
    using Cons.prems(3) by (rule zero_run_mono) simp
  show ?case
  proof (cases "g = 0")
    case True
    let ?cs = "if cl = 0 then i else cs"
    have cur: "zero_run gs (Suc i) (?cs, cl + 1)"
      using Cons.prems(1,2) True g by (intro zero_run_extend) auto
    have adj: "0 < cl + 1 \<longrightarrow> ?cs + (cl + 1) = Suc i" using Cons.prems(2) by auto
    note IH = Cons.hyps(1) [OF rest cur adj]
    show ?thesis
      using IH [OF cur] IH [OF longest] i True by (auto simp: eq Let_def)
  next
    case False
    have "zero_run gs (Suc i) (0, 0)" by (simp add: zero_run_def)
    from Cons.hyps(1) [OF rest this _ longest] i False
    show ?thesis by (simp add: eq)
  qed
qed

lemma zero_run_replicate:
  assumes "zero_run gs (length gs) (start, len)"
  shows "gs = take start gs @ replicate len 0 @ drop (start + len) gs"
proof -
  have "take len (drop start gs) = replicate len 0"
    using assms by (auto simp: zero_run_def list_eq_iff_nth_eq)
  then show ?thesis
    by (metis append_take_drop_id drop_drop add.commute)
qed

lemma u16_bytes:
  "word_of_int (256 * uint (word_of_int (uint g div 256) :: u8) +
     uint (word_of_int (uint g mod 256) :: u8)) = (g :: u16)"
proof -
  have "uint g div 256 \<le> 65535 div 256"
    by (rule zdiv_mono1) simp_all
  then have "uint g div 256 < 256" "0 \<le> uint g div 256"
    by (auto simp: pos_imp_zdiv_nonneg_iff)
  then have "256 * uint (word_of_int (uint g div 256) :: u8) +
      uint (word_of_int (uint g mod 256) :: u8) = uint g"
    by (simp add: uint_word_of_int)
  then show ?thesis by (simp only: word_of_int_uint)
qed

lemma read_ipv6_mapped:
  assumes "to_ipv4_mapped ip = Some v4"
  shows "read_ipv6 (''::ffff:'' @ show_ipv4 v4) = Some (ip, [])"
proof (cases ip)
  case (Ipv6 a b c d e f g h)
  have v4: "ipv4_groups v4 = [g, h]" and z: "a = 0" "b = 0" "c = 0" "d = 0" "e = 0" "f = 0xffff"
    using assms u16_bytes [of g] u16_bytes [of h]
    by (auto simp: Ipv6 simp del: of_int_add of_int_mult split: if_splits)
  have ffff: "show_group 0xffff = ''ffff''" by code_simp
  have "read_ipv4 (''ffff'' @ CHR '':'' # show_ipv4 v4) = None"
    using hex_text_show_group [of "0xffff"] by (intro read_ipv4_on_group) (simp_all add: ffff)
  moreover have "read_group (''ffff'' @ CHR '':'' # show_ipv4 v4) = Some (0xffff, CHR '':'' # show_ipv4 v4)"
    using read_group_printed [of "CHR '':'' # show_ipv4 v4" "0xffff"] by (simp add: ffff)
  moreover have "read_ipv4 (show_ipv4 v4) = Some (v4, [])"
    using read_ipv4_printed [of "[]" v4] by simp
  ultimately have tail: "read_groups 7 True (''ffff:'' @ show_ipv4 v4) = ([0xffff, g, h], True, [])"
    by (simp add: eval_nat_numeral read_separated_def v4)
  have head: "read_groups 8 True (''::ffff:'' @ show_ipv4 v4) = ([], False, ''::ffff:'' @ show_ipv4 v4)"
    by (simp add: eval_nat_numeral read_separated_def)
  show ?thesis
    using head tail by (simp add: read_ipv6_def Ipv6 z eval_nat_numeral)
qed

lemma read_show_ipv6: "read_ipv6 (show_ipv6 ip) = Some (ip, [])"
proof (cases "to_ipv4_mapped ip")
  case (Some v4)
  then show ?thesis using read_ipv6_mapped [OF Some] by (simp add: show_ipv6_def)
next
  case None
  obtain start len where span: "zero_span 0 (0, 0) (0, 0) (groups ip) = (start, len)"
    by (cases "zero_span 0 (0, 0) (0, 0) (groups ip)")
  have run: "zero_run (groups ip) (length (groups ip)) (start, len)"
    using zero_span_run [of "groups ip" 0 0 0 0 0] by (simp add: span zero_run_def)
  show ?thesis
  proof (cases "1 < len")
    case True
    have bound: "start + len \<le> 8" using run by (simp add: zero_run_def)
    have "read_ipv6 (show_groups (take start (groups ip)) @ ''::'' @
        show_groups (drop (start + len) (groups ip))) = Some (ip, [])"
      using zero_run_replicate [OF run] bound True
      by (intro read_ipv6_compressed) (auto simp: min_def)
    with None span True show ?thesis by (simp add: show_ipv6_def)
  next
    case False
    with None span show ?thesis by (simp add: show_ipv6_def read_ipv6_full)
  qed
qed

lemma parse_show_ipv6 [simp]: "parse_ipv6 (show_ipv6 ip) = Some ip"
  by (simp add: parse_ipv6_def parse_with_def read_show_ipv6)

lemma more_groups_colon: "\<exists>t. more_groups gs @ CHR '':'' # r = CHR '':'' # t"
  by (cases gs) (auto simp: more_groups_def)

lemma show_groups_colon: "\<exists>h t. show_groups gs @ CHR '':'' # r = h @ CHR '':'' # t \<and> hex_text h"
proof (cases gs)
  case Nil
  then have "show_groups gs @ CHR '':'' # r = [] @ CHR '':'' # r \<and> hex_text []"
    by (simp add: show_groups_def hex_text_def)
  then show ?thesis by blast
next
  case (Cons g gs')
  obtain t where "more_groups gs' @ CHR '':'' # r = CHR '':'' # t"
    using more_groups_colon by blast
  with Cons have "show_groups gs @ CHR '':'' # r = show_group g @ CHR '':'' # t"
    by (simp add: show_groups_Cons)
  then show ?thesis using hex_text_show_group by blast
qed

lemma show_ipv6_shape: "\<exists>h t. show_ipv6 ip = h @ CHR '':'' # t \<and> hex_text h"
proof (cases "to_ipv4_mapped ip")
  case (Some v4)
  then have "show_ipv6 ip = [] @ CHR '':'' # '':ffff:'' @ show_ipv4 v4 \<and> hex_text []"
    by (simp add: show_ipv6_def hex_text_def)
  then show ?thesis by blast
next
  case None
  obtain g g' gs where ip: "groups ip = g # g' # gs" by (cases ip) auto
  then have full: "show_groups (groups ip) = show_group g @ CHR '':'' # show_group g' @ more_groups gs"
    by (simp add: show_groups_Cons more_groups_def)
  obtain start len where span: "zero_span 0 (0, 0) (0, 0) (groups ip) = (start, len)"
    by (cases "zero_span 0 (0, 0) (0, 0) (groups ip)")
  show ?thesis
  proof (cases "1 < len")
    case True
    with None span have "show_ipv6 ip = show_groups (take start (groups ip)) @ CHR '':'' #
        (CHR '':'' # show_groups (drop (start + len) (groups ip)))"
      by (simp add: show_ipv6_def)
    then show ?thesis using show_groups_colon by metis
  next
    case False
    with None span full have "show_ipv6 ip = show_group g @ CHR '':'' # show_group g' @ more_groups gs"
      by (simp add: show_ipv6_def)
    then show ?thesis using hex_text_show_group by blast
  qed
qed

theorem parse_show_ip [simp]: "parse_ip (show_ip ip) = Some ip"
proof (cases ip)
  case (V4 a)
  then show ?thesis
    using read_ipv4_printed [of "[]" a] by (simp add: parse_ip_def parse_with_def read_ip_def)
next
  case (V6 a)
  obtain h t where "show_ipv6 a = h @ CHR '':'' # t" "hex_text h"
    using show_ipv6_shape by blast
  then have "read_ipv4 (show_ipv6 a) = None"
    using read_ipv4_on_group [of h "CHR '':'' # t"] by simp
  with V6 show ?thesis
    by (simp add: parse_ip_def parse_with_def read_ip_def read_show_ipv6)
qed
subsection \<open>The characters of a printed address\<close>

definition ip_text :: "string \<Rightarrow> bool" where
  "ip_text s \<longleftrightarrow> (\<forall>c \<in> set s. to_digit 16 c \<noteq> None \<or> c = CHR ''.'' \<or> c = CHR '':'')"

lemma ip_text_simps [simp]:
  "ip_text []" "ip_text (s @ t) \<longleftrightarrow> ip_text s \<and> ip_text t"
  "ip_text (c # s) \<longleftrightarrow> (to_digit 16 c \<noteq> None \<or> c = CHR ''.'' \<or> c = CHR '':'') \<and> ip_text s"
  by (auto simp: ip_text_def)

lemma ip_text_hex: "hex_text s \<Longrightarrow> ip_text s"
  by (auto simp: ip_text_def hex_text_def)

lemma ip_text_octet [simp]: "ip_text (show_int 10 (uint (a :: u8)))"
  using to_digits_bound [of 10 "uint a"] by (fastforce simp: ip_text_def show_int_def)

lemma ip_text_ipv4 [simp]: "ip_text (show_ipv4 ip)"
  by (cases ip) simp

lemma ip_text_group [simp]: "ip_text (show_group g)"
  by (simp add: ip_text_hex)

lemma ip_text_more_groups [simp]: "ip_text (more_groups gs)"
  by (induction gs) (auto simp: more_groups_def)

lemma ip_text_groups [simp]: "ip_text (show_groups gs)"
proof (cases gs)
  case Nil
  then show ?thesis by (simp add: show_groups_def)
qed (simp add: show_groups_Cons)

lemma hex_f [simp]: "to_digit 16 CHR ''f'' = Some 15"
  by code_simp

lemma ip_text_ipv6 [simp]: "ip_text (show_ipv6 ip)"
  by (auto simp: show_ipv6_def split: option.split prod.split)

lemma ip_text_ip [simp]: "ip_text (show_ip ip)"
  by (cases ip) simp_all

text \<open>Characters that separate addresses never occur in one.\<close>

lemma ip_text_plain: "ip_text s \<Longrightarrow> plain s"
proof (induction s)
  case Nil
  then show ?case by simp
next
  case (Cons c s)
  have "byte_in 33 126 c" if "to_digit 16 c \<noteq> None"
    using that by (auto simp: to_digit_def byte_in_def Let_def split: if_splits)
  moreover have "byte_in 33 126 CHR ''.''" "byte_in 33 126 CHR '':''" by code_simp+
  ultimately show ?case using Cons by auto
qed

lemma ip_text_excludes: "ip_text s \<Longrightarrow> to_digit 16 c = None \<Longrightarrow> c \<noteq> CHR ''.'' \<Longrightarrow> c \<noteq> CHR '':'' \<Longrightarrow> c \<notin> set s"
  by (auto simp: ip_text_def)

lemma not_hex [simp]:
  "to_digit 16 CHR '','' = None" "to_digit 16 CHR '' '' = None" "to_digit 16 CHR 0x0A = None"
  "to_digit 16 CHR ''#'' = None" "to_digit 16 CHR '';'' = None" "to_digit 16 CHR ''%'' = None"
  by code_simp+

lemma ip_text_no_comma: "ip_text s \<Longrightarrow> CHR '','' \<notin> set s"
  by (rule ip_text_excludes) simp_all

lemma show_ipv4_not_Nil [simp]: "show_ipv4 ip \<noteq> []"
  by (cases ip) simp

lemma show_ipv6_not_Nil [simp]: "show_ipv6 ip \<noteq> []"
  using show_ipv6_shape [of ip] by auto

lemma show_ip_not_Nil [simp]: "show_ip ip \<noteq> []"
  by (cases ip) simp_all

section \<open>Lists of addresses\<close>

text \<open>The first piece that is no address ends the loop: \<open>Inl\<close> of that piece.\<close>

definition parse_each :: "(string \<Rightarrow> 'a option) \<Rightarrow> string list \<Rightarrow> string + 'a list" where
  "parse_each parse = traverse (\<lambda>p. case parse p of None \<Rightarrow> Inl p | Some a \<Rightarrow> Inr a)"

lemma parse_each_Inr_iff:
  "parse_each parse ps = Inr xs \<longleftrightarrow> list_all2 (\<lambda>p x. parse p = Some x) ps xs"
proof -
  have "(\<lambda>p x. (case parse p of None \<Rightarrow> Inl p | Some a \<Rightarrow> Inr a) = Inr x) =
      (\<lambda>p x. parse p = Some x)"
    by (intro ext) (auto split: option.splits)
  then show ?thesis by (simp add: parse_each_def traverse_Inr_iff)
qed

lemma parse_each_Inl: "parse_each parse ps = Inl p \<Longrightarrow> p \<in> set ps \<and> parse p = None"
  unfolding parse_each_def
  by (drule traverse_error_from_piece) (auto split: option.splits)

lemma parse_each_length: "parse_each parse ps = Inr xs \<Longrightarrow> length xs = length ps"
  by (auto simp: parse_each_Inr_iff dest: list_all2_lengthD)

text \<open>
  The contract of a textual format for addresses: what is printed parses back, and printing
  uses no separator.  Comma-separated columns of the configuration files rest on it.
\<close>

locale address_format =
  fixes parse :: "string \<Rightarrow> 'a option"
    and print :: "'a \<Rightarrow> string"
  assumes parse_print: "parse (print a) = Some a"
    and print_ip_text: "ip_text (print a)"
    and print_not_Nil: "print a \<noteq> []"
begin

lemma split_printed:
  "xs \<noteq> [] \<Longrightarrow> split_char CHR '','' (join '','' (map print xs)) = map print xs"
  using print_ip_text ip_text_no_comma by (intro split_join) auto

lemma parse_each_printed:
  "xs \<noteq> [] \<Longrightarrow> parse_each parse (split_char CHR '','' (join '','' (map print xs))) = Inr xs"
  by (simp add: split_printed parse_each_def traverse_map_ok parse_print)

lemma column_not_Nil: "xs \<noteq> [] \<Longrightarrow> join '','' (map print xs) \<noteq> []"
  using print_not_Nil by (cases xs; cases "tl xs") auto

lemma column_plain: "plain (join '','' (map print xs))"
proof -
  have "byte_in 33 126 CHR '',''" by code_simp
  then show ?thesis
    using set_join [of "'',''" "map print xs"] print_ip_text
    by (fastforce simp: plain_def list_all_iff dest!: ip_text_plain)
qed

end

interpretation ipv4_format: address_format parse_ipv4 show_ipv4
  by unfold_locales simp_all

interpretation ipv6_format: address_format parse_ipv6 show_ipv6
  by unfold_locales simp_all

interpretation ip_format: address_format parse_ip show_ip
  by unfold_locales simp_all

end
