(* ===== verification/Aardvark_Error.thy ===== *)
theory Aardvark_Error
  imports Ip_Addr "HOL-Library.Sublist"
begin

text \<open>
  \<open>src/error.rs\<close>: the error type of the program, its conversions, the \<open>wrap\<close> combinator
  that adds context to a failure, the list that collects several failures of one reload, and
  how an error is printed.  \<open>std::io::Error\<close> is its kind and its text.
\<close>

section \<open>Errors\<close>

datatype error_kind =
    NotFound | PermissionDenied | AddrInUse | AddrNotAvailable | InvalidData | OtherKind

datatype io_error = Io_Error (kind: error_kind) (io_text: string)

text \<open>\<open>AddrParseError\<close> only says which parser failed.\<close>

datatype addr_kind = Addr_Ip | Addr_Ipv4 | Addr_Ipv6

fun show_addr_kind :: "addr_kind \<Rightarrow> string" where
  "show_addr_kind Addr_Ip = ''invalid IP address syntax''"
| "show_addr_kind Addr_Ipv4 = ''invalid IPv4 address syntax''"
| "show_addr_kind Addr_Ipv6 = ''invalid IPv6 address syntax''"

datatype aardvark_error =
    Message string
  | IOError io_error
  | Chain string aardvark_error
  | ErrorList "aardvark_error list"
  | AddrParseError addr_kind

type_synonym 'a aardvark_result = "aardvark_error + 'a"

text \<open>\<open>AardvarkError::msg\<close> and \<open>AardvarkError::wrap\<close>.\<close>

definition error_msg :: "string \<Rightarrow> aardvark_error" where
  "error_msg msg = Message msg"

definition error_wrap :: "string \<Rightarrow> aardvark_error \<Rightarrow> aardvark_error" where
  "error_wrap msg chained = Chain msg chained"

text \<open>
  The three \<open>From\<close> conversions.  How \<open>nix::Error\<close> becomes a \<open>std::io::Error\<close> is code of
  the nix crate, the argument \<open>into_io\<close>.
\<close>

definition from_io_error :: "io_error \<Rightarrow> aardvark_error" where
  "from_io_error err = IOError err"

definition from_nix_error :: "('n \<Rightarrow> io_error) \<Rightarrow> 'n \<Rightarrow> aardvark_error" where
  "from_nix_error into_io err = IOError (into_io err)"

definition from_addr_parse_error :: "addr_kind \<Rightarrow> aardvark_error" where
  "from_addr_parse_error err = AddrParseError err"

text \<open>\<open>AardvarkWrap::wrap\<close>; \<open>into\<close> is the conversion the trait bound asks for.\<close>

definition wrap :: "('e \<Rightarrow> aardvark_error) \<Rightarrow> 'e + 'a \<Rightarrow> string \<Rightarrow> 'a aardvark_result" where
  "wrap into r msg =
     (case r of
        Inr ok \<Rightarrow> Inr ok
      | Inl error \<Rightarrow> Inl (error_wrap msg (into error)))"

text \<open>\<open>AardvarkErrorList\<close>.\<close>

definition errors_new :: "aardvark_error list" where
  "errors_new = []"

definition errors_push :: "aardvark_error list \<Rightarrow> aardvark_error \<Rightarrow> aardvark_error list" where
  "errors_push errors err = errors @ [err]"

definition errors_is_empty :: "aardvark_error list \<Rightarrow> bool" where
  "errors_is_empty errors \<longleftrightarrow> errors = []"

lemmas errors_defs = errors_new_def errors_push_def errors_is_empty_def

text \<open>\<open>impl Display for AardvarkError\<close>.\<close>

fun show_error :: "aardvark_error \<Rightarrow> string" where
  "show_error (Message s) = s"
| "show_error (Chain s e) = s @ '': '' @ show_error e"
| "show_error (IOError e) = ''IO error: '' @ io_text e"
| "show_error (AddrParseError e) = ''parse address: '' @ show_addr_kind e"
| "show_error (ErrorList es) =
     (case es of
        [] \<Rightarrow> []
      | first # iter \<Rightarrow>
          show_error first @ concat (map (\<lambda>err. CHR 0x0A # show_error err) iter))"

section \<open>Properties\<close>

lemma wrap_simps [simp]:
  "wrap into (Inr ok) msg = Inr ok"
  "wrap into (Inl e) msg = Inl (Chain msg (into e))"
  by (simp_all add: wrap_def error_wrap_def)

lemma wrap_Inr_iff [simp]: "wrap into r msg = Inr ok \<longleftrightarrow> r = Inr ok"
  by (cases r) auto

lemma wrap_Inl_iff: "wrap into r msg = Inl err \<longleftrightarrow> (\<exists>e. r = Inl e \<and> err = Chain msg (into e))"
  by (cases r) auto

lemma join_newline:
  "join [c] (p # ps) = p @ concat (map (\<lambda>q. c # q) ps)"
  by (induction ps arbitrary: p) auto

lemma sublist_inside: "sublist p t \<Longrightarrow> sublist p (s @ t @ u)"
  unfolding sublist_def by (metis append.assoc)

lemma sublist_join: "p \<in> set ps \<Longrightarrow> sublist p (join sep ps)"
proof (induction sep ps rule: join.induct)
  case (3 sep p' q ps)
  then show ?case
    using sublist_inside [of p "join sep (q # ps)" "p' @ sep" "[]"] by auto
qed auto

text \<open>A list of errors is printed as its errors joined by newlines: no newline is
  added for a single error, and an empty list prints as nothing.\<close>

theorem show_error_list: "show_error (ErrorList es) = join [CHR 0x0A] (map show_error es)"
proof (cases es)
  case Nil
  then show ?thesis by simp
next
  case (Cons e es')
  then show ?thesis by (simp add: join_newline comp_def)
qed

text \<open>No failure of a reload is lost in the message: the text of every error pushed on a
  list, however it was wrapped, is part of the text of the list.\<close>

theorem pushed_error_is_shown:
  "sublist (show_error e) (show_error (error_wrap ctx (ErrorList (errors_push es e))))"
proof -
  have "sublist (show_error e) (show_error (ErrorList (errors_push es e)))"
    unfolding show_error_list by (rule sublist_join) (simp add: errors_push_def)
  then show ?thesis
    using sublist_inside [of "show_error e" _ "ctx @ '': ''" "[]"]
    by (simp add: error_wrap_def del: show_error.simps(5))
qed

end
