(* ===== verification/Backend.thy ===== *)
theory Backend
  imports Aardvark_Error
begin

text \<open>
  \<open>src/backend/mod.rs\<close>: the in-memory store of the DNS server.  It answers four questions
  about a requester (an IP address): which addresses a name has in the networks of the
  requester, which names an address has there, which upstream servers its networks name,
  and whether all of its networks are internal.  The \<open>error!\<close> line of \<open>lookup\<close> is not
  modelled: it changes neither the state nor the answer.
\<close>

section \<open>The store\<close>

record dns_backend =
  ip_mappings :: "ip_addr \<rightharpoonup> string list"
  name_mappings :: "string \<rightharpoonup> (string \<rightharpoonup> ip_addr list)"
  reverse_mappings :: "string \<rightharpoonup> (ip_addr \<rightharpoonup> string list)"
  ctr_dns_server :: "ip_addr \<rightharpoonup> ip_addr list option"
  network_dns_server :: "string \<rightharpoonup> ip_addr list"
  network_is_internal :: "string \<rightharpoonup> bool"
  search_domain :: string

definition backend_new ::
  "(ip_addr \<rightharpoonup> string list) \<Rightarrow> (string \<rightharpoonup> (string \<rightharpoonup> ip_addr list)) \<Rightarrow>
   (string \<rightharpoonup> (ip_addr \<rightharpoonup> string list)) \<Rightarrow> (ip_addr \<rightharpoonup> ip_addr list option) \<Rightarrow>
   (string \<rightharpoonup> ip_addr list) \<Rightarrow> (string \<rightharpoonup> bool) \<Rightarrow> string \<Rightarrow> dns_backend" where
  "backend_new containers networks reverse ctr_dns network_dns internal domain =
     (let domain = (case rev domain of
                      [] \<Rightarrow> domain
                    | c # _ \<Rightarrow> if c \<noteq> CHR ''.'' then domain @ ''.'' else domain)
      in \<lparr>ip_mappings = containers, name_mappings = networks, reverse_mappings = reverse,
          ctr_dns_server = ctr_dns, network_dns_server = network_dns,
          network_is_internal = internal, search_domain = domain\<rparr>)"

section \<open>Lookups\<close>

text \<open>The name a query is looked up under: lower case, search domain and final dot removed.\<close>

definition lookup_name :: "(string \<Rightarrow> string) \<Rightarrow> string \<Rightarrow> string \<Rightarrow> string" where
  "lookup_name uni domain entry =
     (let name = to_lowercase uni entry;
          name = (if ends_with name domain then drop_last (length domain) name else name)
      in if ends_with name ''.'' then drop_last 1 name else name)"

text \<open>The loop over the networks of the requester.\<close>

fun lookup_nets ::
  "(string \<rightharpoonup> (string \<rightharpoonup> ip_addr list)) \<Rightarrow> string \<Rightarrow> string list \<Rightarrow> ip_addr list \<Rightarrow> ip_addr list"
where
  "lookup_nets mappings name [] results = results"
| "lookup_nets mappings name (net # nets) results =
     (case mappings net of
        None \<Rightarrow> lookup_nets mappings name nets results
      | Some net_names \<Rightarrow>
          (case net_names name of
             None \<Rightarrow> lookup_nets mappings name nets results
           | Some addrs \<Rightarrow> lookup_nets mappings name nets (results @ addrs)))"

text \<open>An unknown requester is served as if it were in the network the server listens for.\<close>

definition requester_nets :: "dns_backend \<Rightarrow> ip_addr \<Rightarrow> string \<Rightarrow> string list" where
  "requester_nets be requester network_name =
     (case ip_mappings be requester of
        Some n \<Rightarrow> n
      | None \<Rightarrow> [network_name])"

definition lookup ::
  "(string \<Rightarrow> string) \<Rightarrow> dns_backend \<Rightarrow> ip_addr \<Rightarrow> string \<Rightarrow> string \<Rightarrow> ip_addr list option" where
  "lookup uni be requester network_name entry =
     (let name = lookup_name uni (search_domain be) entry;
          nets = requester_nets be requester network_name;
          results = lookup_nets (name_mappings be) name nets []
      in if results = [] then None else Some results)"

fun resolvers_of_nets :: "(string \<rightharpoonup> ip_addr list) \<Rightarrow> string list \<Rightarrow> ip_addr list \<Rightarrow> ip_addr list" where
  "resolvers_of_nets servers [] results = results"
| "resolvers_of_nets servers (net # nets) results =
     (case servers net of
        Some resolvers \<Rightarrow> resolvers_of_nets servers nets (results @ resolvers)
      | None \<Rightarrow> resolvers_of_nets servers nets results)"

definition get_network_scoped_resolvers :: "dns_backend \<Rightarrow> ip_addr \<Rightarrow> ip_addr list option" where
  "get_network_scoped_resolvers be requester =
     (case ip_mappings be requester of
        Some nets \<Rightarrow> Some (resolvers_of_nets (network_dns_server be) nets [])
      | None \<Rightarrow> None)"

fun all_internal :: "(string \<rightharpoonup> bool) \<Rightarrow> string list \<Rightarrow> bool" where
  "all_internal is_internal [] = True"
| "all_internal is_internal (net # nets) =
     (case is_internal net of
        Some internal \<Rightarrow> if \<not> internal then False else all_internal is_internal nets
      | None \<Rightarrow> all_internal is_internal nets)"

definition ctr_is_internal :: "dns_backend \<Rightarrow> ip_addr \<Rightarrow> bool" where
  "ctr_is_internal be requester =
     (case ip_mappings be requester of
        Some nets \<Rightarrow> all_internal (network_is_internal be) nets
      | None \<Rightarrow> False)"

fun first_reverse ::
  "(string \<rightharpoonup> (ip_addr \<rightharpoonup> string list)) \<Rightarrow> ip_addr \<Rightarrow> string list \<Rightarrow> string list option" where
  "first_reverse mappings lookup_ip [] = None"
| "first_reverse mappings lookup_ip (net # nets) =
     (case mappings net of
        None \<Rightarrow> first_reverse mappings lookup_ip nets
      | Some ips \<Rightarrow>
          (case ips lookup_ip of
             Some names \<Rightarrow> Some names
           | None \<Rightarrow> first_reverse mappings lookup_ip nets))"

definition reverse_lookup :: "dns_backend \<Rightarrow> ip_addr \<Rightarrow> ip_addr \<Rightarrow> string list option" where
  "reverse_lookup be requester lookup_ip =
     (case ip_mappings be requester of
        None \<Rightarrow> None
      | Some nets \<Rightarrow> first_reverse (reverse_mappings be) lookup_ip nets)"

section \<open>What the loops compute\<close>

lemma lookup_nets_concat:
  "lookup_nets mappings name nets results =
     results @ concat (map (\<lambda>net. or_default (nested_get mappings (net, name))) nets)"
  by (induction mappings name nets results rule: lookup_nets.induct)
    (auto simp: nested_get_def split: option.splits)

lemma resolvers_of_nets_concat:
  "resolvers_of_nets servers nets results =
     results @ concat (map (\<lambda>net. or_default (servers net)) nets)"
  by (induction servers nets results rule: resolvers_of_nets.induct) (auto split: option.splits)

lemma all_internal_iff:
  "all_internal is_internal nets \<longleftrightarrow> (\<forall>net \<in> set nets. is_internal net \<noteq> Some False)"
  by (induction is_internal nets rule: all_internal.induct) (auto split: option.splits)

lemma first_reverse_Some_iff:
  "first_reverse mappings ip nets = Some names \<longleftrightarrow>
     (\<exists>pre net post. nets = pre @ net # post \<and> nested_get mappings (net, ip) = Some names \<and>
        (\<forall>n \<in> set pre. nested_get mappings (n, ip) = None))"
proof (induction nets)
  case Nil
  then show ?case by simp
next
  case (Cons net nets)
  have step: "first_reverse mappings ip (net # nets) =
      (case nested_get mappings (net, ip) of Some ns \<Rightarrow> Some ns
       | None \<Rightarrow> first_reverse mappings ip nets)"
    by (auto simp: nested_get_def split: option.splits)
  show ?case (is "_ \<longleftrightarrow> (\<exists>pre n post. ?split pre n post)")
  proof (cases "nested_get mappings (net, ip)")
    case None
    show ?thesis
    proof
      assume "first_reverse mappings ip (net # nets) = Some names"
      with None Cons.IH obtain pre n post where "nets = pre @ n # post"
        "nested_get mappings (n, ip) = Some names" "\<forall>n \<in> set pre. nested_get mappings (n, ip) = None"
        unfolding step by auto
      with None have "?split (net # pre) n post" by simp
      then show "\<exists>pre n post. ?split pre n post" by blast
    next
      assume "\<exists>pre n post. ?split pre n post"
      then obtain pre n post where split: "?split pre n post" by blast
      with None obtain pre' where "pre = net # pre'" by (cases pre) auto
      with split have "nets = pre' @ n # post \<and> nested_get mappings (n, ip) = Some names \<and>
          (\<forall>n \<in> set pre'. nested_get mappings (n, ip) = None)" by simp
      with Cons.IH have "first_reverse mappings ip nets = Some names" by blast
      with None show "first_reverse mappings ip (net # nets) = Some names" unfolding step by simp
    qed
  next
    case (Some ns)
    have eq: "first_reverse mappings ip (net # nets) = Some ns" unfolding step Some by simp
    have "\<exists>pre n post. ?split pre n post" if "ns = names"
      using Some that by (intro exI [of _ "[]"] exI [of _ net] exI [of _ nets]) simp
    moreover have "ns = names" if "?split pre n post" for pre n post
      using Some that by (cases pre) auto
    ultimately show ?thesis unfolding eq by blast
  qed
qed

lemma first_reverse_None_iff:
  "first_reverse mappings ip nets = None \<longleftrightarrow>
     (\<forall>net \<in> set nets. nested_get mappings (net, ip) = None)"
  by (induction mappings ip nets rule: first_reverse.induct)
    (auto simp: nested_get_def split: option.splits)

text \<open>All addresses a requester can obtain for a (normalised) name, network by network.\<close>

definition visible_addrs :: "dns_backend \<Rightarrow> string list \<Rightarrow> string \<Rightarrow> ip_addr list" where
  "visible_addrs be nets name =
     concat (map (\<lambda>net. or_default (nested_get (name_mappings be) (net, name))) nets)"

lemma lookup_visible:
  "lookup uni be requester network_name entry =
     (let addrs = visible_addrs be (requester_nets be requester network_name)
                    (lookup_name uni (search_domain be) entry)
      in if addrs = [] then None else Some addrs)"
  by (simp add: lookup_def visible_addrs_def lookup_nets_concat Let_def)

lemma visible_addrs_mem:
  "ip \<in> set (visible_addrs be nets name) \<longleftrightarrow>
     (\<exists>net \<in> set nets. \<exists>names addrs. name_mappings be net = Some names \<and>
        names name = Some addrs \<and> ip \<in> set addrs)"
  by (auto simp: visible_addrs_def nested_get_def or_default_def split: option.splits) metis+

end
