(* ===== verification/Config.thy ===== *)
theory Config
  imports Backend
begin

text \<open>
  \<open>parse_config\<close> of \<open>src/config/mod.rs\<close>: one network configuration file.  The first
  non-empty line holds the listen addresses and, in an optional second column, the DNS
  servers of the network; every other non-empty line is a container.  Every early return of
  the function is an error here, with the message it builds.  The second half of the theory
  writes configurations in the documented format (\<open>config.md\<close>) and proves that the parser
  reads them back.
\<close>

section \<open>Parsed configurations\<close>

record ctr_entry =
  ctr_id :: string
  ctr_v4 :: "ipv4 list option"
  ctr_v6 :: "ipv6 list option"
  ctr_aliases :: "string list"
  ctr_dns_servers :: "ip_addr list option"

record parsed_network_config =
  network_bind_ip :: "ip_addr list"
  container_entry :: "ctr_entry list"
  network_dnsservers :: "ip_addr list"

section \<open>The parser\<close>

text \<open>\<open>std::fs::read_to_string\<close> on the bytes of a file, or on the error of opening it.\<close>

definition read_to_string :: "io_error + string \<Rightarrow> io_error + string" where
  "read_to_string file =
     (case file of
        Inl e \<Rightarrow> Inl e
      | Inr bytes \<Rightarrow>
          if utf8_valid bytes then Inr bytes
          else Inl (Io_Error InvalidData ''stream did not contain valid UTF-8''))"

text \<open>The first line: listen addresses, and DNS servers when there is a second column.\<close>

definition parse_first_line :: "string \<Rightarrow> string \<Rightarrow> (ip_addr list \<times> ip_addr list) aardvark_result" where
  "parse_first_line path line =
     (let network_parts = split_char CHR '' '' line in
      if network_parts = [] then
        Inl (error_msg (''invalid network configuration file: '' @ path))
      else
        (case parse_each parse_ip (split_char CHR '','' (network_parts ! 0)) of
           Inl ip \<Rightarrow>
             Inl (error_msg (''error parsing ip address '' @ ip @ '': '' @ show_addr_kind Addr_Ip))
         | Inr bind_addrs \<Rightarrow>
             if 1 < length network_parts then
               (case parse_each parse_ip (split_char CHR '','' (network_parts ! 1)) of
                  Inl ip \<Rightarrow>
                    Inl (error_msg (''error parsing network dns address '' @ ip @ '': '' @
                      show_addr_kind Addr_Ip))
                | Inr dns \<Rightarrow> Inr (bind_addrs, dns))
             else Inr (bind_addrs, [])))"

text \<open>A column of comma-separated addresses; an empty column is \<open>None\<close>.\<close>

definition parse_column ::
  "(string \<Rightarrow> 'a option) \<Rightarrow> string \<Rightarrow> addr_kind \<Rightarrow> string \<Rightarrow> 'a list option aardvark_result" where
  "parse_column parse msg k column =
     (if column \<noteq> [] then
        (case parse_each parse (split_char CHR '','' column) of
           Inr addrs \<Rightarrow> Inr (Some addrs)
         | Inl _ \<Rightarrow> Inl (error_msg (msg @ column @ '': '' @ show_addr_kind k)))
      else Inr None)"

text \<open>A container line.\<close>

definition parse_entry_line :: "(string \<Rightarrow> string) \<Rightarrow> string \<Rightarrow> string \<Rightarrow> ctr_entry aardvark_result" where
  "parse_entry_line uni path line =
     (let parts = split_char CHR '' '' line in
      if length parts < 4 then
        Inl (error_msg (''configuration file '' @ path @ '' line '' @ line @
          '' is improperly formatted - too few entries''))
      else
        (case parse_column parse_ipv4 ''error parsing IP address '' Addr_Ipv4 (parts ! 1) of
           Inl e \<Rightarrow> Inl e
         | Inr v4_addrs \<Rightarrow>
        (case parse_column parse_ipv6 ''error parsing IP address '' Addr_Ipv6 (parts ! 2) of
           Inl e \<Rightarrow> Inl e
         | Inr v6_addrs \<Rightarrow>
             (let aliases = map (to_lowercase uni) (split_char CHR '','' (parts ! 3)) in
              if aliases = [] then
                Inl (error_msg (''configuration file '' @ path @ '' line '' @ line @
                  '' is improperly formatted - no names given''))
              else
                (case (if length parts = 5
                       then parse_column parse_ip ''error parsing DNS server address '' Addr_Ip
                              (parts ! 4)
                       else Inr None) of
                   Inl e \<Rightarrow> Inl e
                 | Inr dns_servers \<Rightarrow>
                     Inr \<lparr>ctr_id = to_lowercase uni (parts ! 0), ctr_v4 = v4_addrs,
                          ctr_v6 = v6_addrs, ctr_aliases = aliases,
                          ctr_dns_servers = dns_servers\<rparr>)))))"

text \<open>The loop over the lines, with its four local variables.\<close>

fun parse_lines ::
  "(string \<Rightarrow> string) \<Rightarrow> string \<Rightarrow> string list \<Rightarrow> bool \<Rightarrow> ip_addr list \<Rightarrow> ip_addr list \<Rightarrow>
   ctr_entry list \<Rightarrow> (ip_addr list \<times> ip_addr list \<times> ctr_entry list) aardvark_result"
where
  "parse_lines uni path [] is_first bind_addrs dns ctrs = Inr (bind_addrs, dns, ctrs)"
| "parse_lines uni path (line # lines) is_first bind_addrs dns ctrs =
     (if line = [] then parse_lines uni path lines is_first bind_addrs dns ctrs
      else if is_first then
        (case parse_first_line path line of
           Inl e \<Rightarrow> Inl e
         | Inr (bs, ds) \<Rightarrow> parse_lines uni path lines False (bind_addrs @ bs) (dns @ ds) ctrs)
      else
        (case parse_entry_line uni path line of
           Inl e \<Rightarrow> Inl e
         | Inr ctr \<Rightarrow> parse_lines uni path lines False bind_addrs dns (ctrs @ [ctr])))"

definition parse_config ::
  "(string \<Rightarrow> string) \<Rightarrow> string \<Rightarrow> io_error + string \<Rightarrow> parsed_network_config aardvark_result" where
  "parse_config uni path file =
     (case read_to_string file of
        Inl e \<Rightarrow> Inl (from_io_error e)
      | Inr content \<Rightarrow>
          (case parse_lines uni path (split_char CHR 0x0A content) True [] [] [] of
             Inl e \<Rightarrow> Inl e
           | Inr (bind_addrs, network_dns_servers, ctrs) \<Rightarrow>
               if bind_addrs = [] then
                 Inl (error_msg (''configuration file '' @ path @
                   '' does not provide any bind addresses''))
               else
                 Inr \<lparr>network_bind_ip = bind_addrs, container_entry = ctrs,
                      network_dnsservers = network_dns_servers\<rparr>))"

section \<open>What a parsed configuration satisfies\<close>

definition ctr_entry_ok :: "ctr_entry \<Rightarrow> bool" where
  "ctr_entry_ok e \<longleftrightarrow>
     ctr_v4 e \<noteq> Some [] \<and> ctr_v6 e \<noteq> Some [] \<and> ctr_dns_servers e \<noteq> Some [] \<and> ctr_aliases e \<noteq> []"

definition config_ok :: "parsed_network_config \<Rightarrow> bool" where
  "config_ok c \<longleftrightarrow> network_bind_ip c \<noteq> [] \<and> list_all ctr_entry_ok (container_entry c)"

lemma parse_column_Some: "parse_column parse msg k column = Inr (Some addrs) \<Longrightarrow> addrs \<noteq> []"
  by (auto simp: parse_column_def parse_each_Inr_iff split: if_splits sum.splits)

lemma parse_entry_line_ok: "parse_entry_line uni path line = Inr e \<Longrightarrow> ctr_entry_ok e"
  unfolding parse_entry_line_def Let_def ctr_entry_ok_def
  by (auto split: if_splits sum.splits dest: parse_column_Some)

lemma parse_first_line_ok: "parse_first_line path line = Inr (bs, ds) \<Longrightarrow> bs \<noteq> []"
  by (auto simp: parse_first_line_def Let_def parse_each_Inr_iff split: if_splits sum.splits)

lemma parse_lines_ok:
  "parse_lines uni path lines is_first bs ds cs = Inr (bs', ds', cs') \<Longrightarrow>
     list_all ctr_entry_ok cs \<Longrightarrow> list_all ctr_entry_ok cs'"
  by (induction uni path lines is_first bs ds cs rule: parse_lines.induct)
    (auto split: if_splits sum.splits prod.splits dest: parse_entry_line_ok)

lemma parse_lines_append:
  "parse_lines uni path (xs @ ys) is_first bs ds cs =
     (case parse_lines uni path xs is_first bs ds cs of
        Inl e \<Rightarrow> Inl e
      | Inr (bs', ds', cs') \<Rightarrow>
          parse_lines uni path ys (is_first \<and> list_all (\<lambda>l. l = []) xs) bs' ds' cs')"
  by (induction uni path xs is_first bs ds cs rule: parse_lines.induct)
    (auto split: sum.splits prod.splits)

lemma parse_lines_no_blanks:
  "parse_lines uni path lines is_first bs ds cs =
     parse_lines uni path (filter (\<lambda>l. l \<noteq> []) lines) is_first bs ds cs"
  by (induction uni path lines is_first bs ds cs rule: parse_lines.induct)
    (auto split: sum.splits prod.splits)

lemma parse_lines_entries:
  assumes "[] \<notin> set lines"
  shows "parse_lines uni path lines False bs ds cs =
     (case traverse (parse_entry_line uni path) lines of
        Inl e \<Rightarrow> Inl e
      | Inr es \<Rightarrow> Inr (bs, ds, cs @ es))"
  using assms by (induction lines arbitrary: cs) (auto split: sum.splits)

text \<open>
  \<open>parse_config\<close> without its loop: the non-empty lines, the first of them parsed as the
  network line and the others as containers.
\<close>

lemma parse_config_lines:
  "parse_config uni path file =
     (case read_to_string file of
        Inl e \<Rightarrow> Inl (IOError e)
      | Inr content \<Rightarrow>
          (case filter (\<lambda>l. l \<noteq> []) (split_char CHR 0x0A content) of
             [] \<Rightarrow> Inl (Message (''configuration file '' @ path @
                    '' does not provide any bind addresses''))
           | first # rest \<Rightarrow>
               (case parse_first_line path first of
                  Inl e \<Rightarrow> Inl e
                | Inr (bs, ds) \<Rightarrow>
                    (case traverse (parse_entry_line uni path) rest of
                       Inl e \<Rightarrow> Inl e
                     | Inr es \<Rightarrow> Inr \<lparr>network_bind_ip = bs, container_entry = es,
                                      network_dnsservers = ds\<rparr>))))"
proof (cases "read_to_string file")
  case (Inl e)
  then show ?thesis by (simp add: parse_config_def from_io_error_def)
next
  case (Inr content)
  define lines where "lines = filter (\<lambda>l. l \<noteq> []) (split_char CHR 0x0A content)"
  have lines: "parse_lines uni path (split_char CHR 0x0A content) True [] [] [] =
      parse_lines uni path lines True [] [] []"
    unfolding lines_def by (rule parse_lines_no_blanks)
  show ?thesis
  proof (cases lines)
    case Nil
    with Inr lines show ?thesis
      by (simp add: parse_config_def lines_def [symmetric] error_msg_def)
  next
    case (Cons first rest)
    have "[] \<notin> set lines" by (simp add: lines_def)
    then have ne: "first \<noteq> []" "[] \<notin> set rest" by (auto simp: Cons)
    have "parse_lines uni path lines True [] [] [] =
        (case parse_first_line path first of
           Inl e \<Rightarrow> Inl e
         | Inr (bs, ds) \<Rightarrow>
             (case traverse (parse_entry_line uni path) rest of
                Inl e \<Rightarrow> Inl e | Inr es \<Rightarrow> Inr (bs, ds, es)))"
      using ne by (auto simp: Cons parse_lines_entries split: sum.splits prod.splits)
    with Inr lines show ?thesis
      by (auto simp: parse_config_def lines_def [symmetric] Cons
          split: sum.splits prod.splits dest: parse_first_line_ok)
  qed
qed

section \<open>The documented format\<close>

text \<open>
  A writer for the format of \<open>config.md\<close>.  The repository only reads these files; the writer
  is the specification the parser is checked against.
\<close>

definition render_column :: "('a \<Rightarrow> string) \<Rightarrow> 'a list option \<Rightarrow> string" where
  "render_column show addrs =
     (case addrs of None \<Rightarrow> [] | Some xs \<Rightarrow> join '','' (map show xs))"

definition render_entry :: "ctr_entry \<Rightarrow> string" where
  "render_entry e = join '' ''
     ([ctr_id e, render_column show_ipv4 (ctr_v4 e), render_column show_ipv6 (ctr_v6 e),
       join '','' (ctr_aliases e)] @
      (case ctr_dns_servers e of None \<Rightarrow> [] | Some ds \<Rightarrow> [join '','' (map show_ip ds)]))"

definition render_first :: "ip_addr list \<Rightarrow> ip_addr list \<Rightarrow> string" where
  "render_first binds dns = join '' ''
     ([join '','' (map show_ip binds)] @ (if dns = [] then [] else [join '','' (map show_ip dns)]))"

definition render_config :: "parsed_network_config \<Rightarrow> string" where
  "render_config c = join [CHR 0x0A]
     (render_first (network_bind_ip c) (network_dnsservers c) #
      map render_entry (container_entry c))"

text \<open>A name that can stand in a column and is already in lower case.\<close>

definition name_ok :: "string \<Rightarrow> bool" where
  "name_ok s \<longleftrightarrow> plain s \<and> list_all (\<lambda>c. \<not> byte_in 65 90 c) s"

definition entry_writable :: "ctr_entry \<Rightarrow> bool" where
  "entry_writable e \<longleftrightarrow> ctr_entry_ok e \<and> name_ok (ctr_id e) \<and>
     list_all (\<lambda>a. name_ok a \<and> CHR '','' \<notin> set a) (ctr_aliases e)"

definition config_writable :: "parsed_network_config \<Rightarrow> bool" where
  "config_writable c \<longleftrightarrow> network_bind_ip c \<noteq> [] \<and> list_all entry_writable (container_entry c)"

lemma name_ok_plain: "name_ok s \<Longrightarrow> plain s"
  by (simp add: name_ok_def)

lemma plain_ascii: "plain s \<Longrightarrow> is_ascii s"
  by (induction s) (auto simp: is_ascii_def byte_in_def)

lemma name_ok_lowercase: "name_ok s \<Longrightarrow> to_lowercase uni s = s"
  using plain_ascii [of s]
  by (auto simp: name_ok_def to_lowercase_def ascii_lower_def list_all_iff intro!: map_idI)

lemma comma_plain [simp]: "byte_in 33 126 CHR '',''"
  by code_simp

lemma plain_show_ip [simp]: "plain (show_ip ip)"
  by (rule ip_text_plain) simp

lemma plain_join:
  "plain sep \<Longrightarrow> \<forall>p \<in> set ps. plain p \<Longrightarrow> plain (join sep ps)"
  by (induction sep ps rule: join.induct) auto

lemma plain_separators: "plain s \<Longrightarrow> CHR '' '' \<notin> set s \<and> CHR 0x0A \<notin> set s"
proof -
  have "byte CHR '' '' < 33" "byte CHR 0x0A < 33" by code_simp+
  then show "plain s \<Longrightarrow> ?thesis" using plain_no_space by blast
qed

lemma render_column_plain:
  assumes "\<And>xs. plain (join '','' (map show xs))"
  shows "plain (render_column show addrs)"
  using assms by (auto simp: render_column_def split: option.split)

lemma parse_render_column:
  assumes "\<And>xs. xs \<noteq> [] \<Longrightarrow>
      parse_each parse (split_char CHR '','' (join '','' (map show xs))) = Inr xs"
    and "\<And>xs. xs \<noteq> [] \<Longrightarrow> join '','' (map show xs) \<noteq> []"
    and "addrs \<noteq> Some []"
  shows "parse_column parse msg k (render_column show addrs) = Inr addrs"
proof (cases addrs)
  case None
  then show ?thesis by (simp add: render_column_def parse_column_def)
next
  case (Some xs)
  with assms(3) have "xs \<noteq> []" by simp
  with assms(1,2) Some show ?thesis by (simp add: render_column_def parse_column_def)
qed

lemmas parse_render_columns =
  parse_render_column [OF ipv4_format.parse_each_printed ipv4_format.column_not_Nil]
  parse_render_column [OF ipv6_format.parse_each_printed ipv6_format.column_not_Nil]

lemmas render_columns_plain =
  render_column_plain [OF ipv4_format.column_plain] render_column_plain [OF ipv6_format.column_plain]
  ip_format.column_plain

lemma render_entry_columns:
  assumes "entry_writable e"
  shows "split_char CHR '' '' (render_entry e) =
     [ctr_id e, render_column show_ipv4 (ctr_v4 e), render_column show_ipv6 (ctr_v6 e),
      join '','' (ctr_aliases e)] @
     (case ctr_dns_servers e of None \<Rightarrow> [] | Some ds \<Rightarrow> [join '','' (map show_ip ds)])"
    (is "_ = ?columns")
    and "\<forall>p \<in> set (split_char CHR '' '' (render_entry e)). plain p"
proof -
  have plain: "\<forall>p \<in> set ?columns. plain p"
    using assms
    by (auto simp: entry_writable_def list_all_iff render_columns_plain name_ok_plain
        split: option.splits intro!: plain_join)
  then have "\<forall>p \<in> set ?columns. CHR '' '' \<notin> set p" using plain_separators by blast
  then show *: "split_char CHR '' '' (render_entry e) = ?columns"
    unfolding render_entry_def by (intro split_join) simp_all
  show "\<forall>p \<in> set (split_char CHR '' '' (render_entry e)). plain p"
    unfolding * by (rule plain)
qed

lemma aliases_columns:
  assumes "entry_writable e"
  shows "map (to_lowercase uni) (split_char CHR '','' (join '','' (ctr_aliases e))) = ctr_aliases e"
proof -
  have "split_char CHR '','' (join '','' (ctr_aliases e)) = ctr_aliases e"
    using assms by (intro split_join) (auto simp: entry_writable_def ctr_entry_ok_def list_all_iff)
  then show ?thesis
    using assms by (auto simp: entry_writable_def list_all_iff name_ok_lowercase intro!: map_idI)
qed

lemma parse_render_entry:
  assumes "entry_writable e"
  shows "parse_entry_line uni path (render_entry e) = Inr e"
proof -
  have ok: "ctr_entry_ok e" and id: "to_lowercase uni (ctr_id e) = ctr_id e"
    using assms by (auto simp: entry_writable_def name_ok_lowercase)
  have eq: "\<lparr>ctr_id = ctr_id e, ctr_v4 = ctr_v4 e, ctr_v6 = ctr_v6 e,
      ctr_aliases = ctr_aliases e, ctr_dns_servers = ctr_dns_servers e\<rparr> = e"
    by simp
  show ?thesis
  proof (cases "ctr_dns_servers e")
    case None
    with ok eq show ?thesis
      by (simp add: parse_entry_line_def Let_def render_entry_columns(1) [OF assms] id
          aliases_columns [OF assms] parse_render_columns ctr_entry_ok_def)
  next
    case (Some ds)
    with ok have "ds \<noteq> []" by (auto simp: ctr_entry_ok_def)
    then have "parse_column parse_ip m k (join '','' (map show_ip ds)) = Inr (Some ds)" for m k
      by (simp add: parse_column_def ip_format.parse_each_printed ip_format.column_not_Nil)
    with Some ok eq show ?thesis
      by (simp add: parse_entry_line_def Let_def render_entry_columns(1) [OF assms] id
          aliases_columns [OF assms] parse_render_columns ctr_entry_ok_def)
  qed
qed

lemma parse_render_first:
  assumes "binds \<noteq> []"
  shows "parse_first_line path (render_first binds dns) = Inr (binds, dns)"
proof -
  let ?columns = "[join '','' (map show_ip binds)] @
    (if dns = [] then [] else [join '','' (map show_ip dns)])"
  have "\<forall>p \<in> set ?columns. CHR '' '' \<notin> set p"
    using ip_format.column_plain plain_separators by auto
  then have "split_char CHR '' '' (render_first binds dns) = ?columns"
    unfolding render_first_def by (intro split_join) simp_all
  then show ?thesis
    using assms by (simp add: parse_first_line_def ip_format.parse_each_printed)
qed

lemma is_ascii_simps [simp]:
  "is_ascii []" "is_ascii (s @ t) \<longleftrightarrow> is_ascii s \<and> is_ascii t"
  "is_ascii (c # s) \<longleftrightarrow> byte c < 128 \<and> is_ascii s"
  by (simp_all add: is_ascii_def)

lemma is_ascii_join: "is_ascii sep \<Longrightarrow> \<forall>p \<in> set ps. is_ascii p \<Longrightarrow> is_ascii (join sep ps)"
  by (induction sep ps rule: join.induct) auto

lemma ascii_separators [simp]: "byte CHR '' '' < 128" "byte CHR 0x0A < 128"
  by code_simp+

lemma spaced_line:
  assumes "ps \<noteq> []" "\<forall>p \<in> set ps. plain p" "line = join '' '' ps"
  shows "is_ascii line" and "CHR 0x0A \<notin> set line"
proof -
  show "is_ascii line"
    using assms by (auto intro!: is_ascii_join dest: plain_ascii)
  show "CHR 0x0A \<notin> set line"
    using set_join [of "'' ''" ps] assms(2) plain_separators by (fastforce simp: assms(3))
qed

lemma render_entry_line:
  assumes "entry_writable e"
  shows "is_ascii (render_entry e)" "CHR 0x0A \<notin> set (render_entry e)" "render_entry e \<noteq> []"
proof -
  have "render_entry e = join '' '' (split_char CHR '' '' (render_entry e))"
    by (simp add: join_split)
  from spaced_line [OF _ render_entry_columns(2) [OF assms] this]
  show "is_ascii (render_entry e)" "CHR 0x0A \<notin> set (render_entry e)" by simp_all
  show "render_entry e \<noteq> []"
    using render_entry_columns(1) [OF assms] by auto
qed

lemma render_first_line:
  assumes "binds \<noteq> []"
  shows "is_ascii (render_first binds dns)" "CHR 0x0A \<notin> set (render_first binds dns)"
    "render_first binds dns \<noteq> []"
proof -
  let ?columns = "[join '','' (map show_ip binds)] @
    (if dns = [] then [] else [join '','' (map show_ip dns)])"
  have "\<forall>p \<in> set ?columns. plain p" using ip_format.column_plain by auto
  from spaced_line [OF _ this render_first_def]
  show "is_ascii (render_first binds dns)" "CHR 0x0A \<notin> set (render_first binds dns)" by simp_all
  show "render_first binds dns \<noteq> []"
    using ip_format.column_not_Nil [OF assms] by (simp add: render_first_def)
qed

lemma render_config_lines:
  assumes "config_writable c"
  shows "filter (\<lambda>l. l \<noteq> []) (split_char CHR 0x0A (render_config c)) =
      render_first (network_bind_ip c) (network_dnsservers c) # map render_entry (container_entry c)"
    (is "_ = ?lines")
    and "utf8_valid (render_config c)"
proof -
  have entries: "entry_writable e" if "e \<in> set (container_entry c)" for e
    using assms that by (auto simp: config_writable_def list_all_iff)
  have binds: "network_bind_ip c \<noteq> []" using assms by (simp add: config_writable_def)
  have "\<forall>l \<in> set ?lines. CHR 0x0A \<notin> set l" "\<forall>l \<in> set ?lines. is_ascii l" "\<forall>l \<in> set ?lines. l \<noteq> []"
    using render_entry_line [OF entries] render_first_line [OF binds] by auto
  then show "filter (\<lambda>l. l \<noteq> []) (split_char CHR 0x0A (render_config c)) = ?lines"
    and "utf8_valid (render_config c)"
    unfolding render_config_def
    by (simp_all add: split_join filter_id_conv utf8_valid_ascii is_ascii_join)
qed

section \<open>Properties\<close>

text \<open>C30: Round trip: every configuration written in the documented format (at least one
  listen address; names in lower case without blanks or commas) is parsed back to exactly the
  listen addresses, network DNS servers and container entries that were written, in order.\<close>

theorem parse_render_config:
  assumes "config_writable c"
  shows "parse_config uni path (Inr (render_config c)) = Inr c"
proof -
  have entries: "entry_writable e" if "e \<in> set (container_entry c)" for e
    using assms that by (auto simp: config_writable_def list_all_iff)
  have binds: "network_bind_ip c \<noteq> []" using assms by (simp add: config_writable_def)
  have "traverse (parse_entry_line uni path) (map render_entry (container_entry c)) =
      Inr (container_entry c)"
    by (intro traverse_map_ok parse_render_entry entries)
  then show ?thesis
    by (simp add: parse_config_lines read_to_string_def render_config_lines [OF assms]
        parse_render_first [OF binds])
qed

definition sample_entry :: ctr_entry where
  "sample_entry = \<lparr>ctr_id = ''68fb29'', ctr_v4 = Some [Ipv4 10 88 0 2], ctr_v6 = None,
     ctr_aliases = [''ctr1'', ''ctra''], ctr_dns_servers = Some [V4 (Ipv4 8 8 8 8)]\<rparr>"

definition sample_config :: parsed_network_config where
  "sample_config = \<lparr>network_bind_ip = [V4 (Ipv4 10 88 0 1)], container_entry = [sample_entry],
     network_dnsservers = [V4 (Ipv4 1 1 1 1)]\<rparr>"

definition sample_file :: string where
  "sample_file = ''10.88.0.1 1.1.1.1'' @ [CHR 0x0A] @ ''68fb29 10.88.0.2  ctr1,ctra 8.8.8.8''"

lemma sample_writable: "config_writable sample_config"
  by code_simp

lemma sample_rendered: "render_config sample_config = sample_file"
  by code_simp

theorem parse_render_config_witness:
  "config_writable sample_config \<and> parse_config id ''podman'' (Inr sample_file) = Inr sample_config"
  using parse_render_config [OF sample_writable, of id "''podman''"]
  by (simp add: sample_writable sample_rendered)

lemma sample_parsed: "parse_config id ''podman'' (Inr sample_file) = Inr sample_config"
  by code_simp

text \<open>C37: Whatever the file holds, a configuration that is accepted has a listen address, and
  in each of its entries a list of addresses or DNS servers that is present is not empty and
  there is at least one name.\<close>

theorem parse_config_ok:
  assumes "parse_config uni path file = Inr c"
  shows "config_ok c"
proof -
  have "list_all ctr_entry_ok es" if "traverse (parse_entry_line uni path) ls = Inr es" for ls es
    using that by (auto simp: traverse_Inr_iff list_all_iff list_all2_conv_all_nth in_set_conv_nth
        dest!: parse_entry_line_ok)
  with assms show ?thesis
    by (auto simp: parse_config_lines config_ok_def
        split: sum.splits list.splits prod.splits dest: parse_first_line_ok)
qed

theorem parse_config_ok_witness: "config_ok sample_config"
  by (rule parse_config_ok [OF sample_parsed])

text \<open>All or nothing: a file is rejected as a whole as soon as one of its container lines
  has fewer than four columns; no entry of it is used.\<close>

theorem short_line_rejects_file:
  assumes "utf8_valid content"
    and "filter (\<lambda>l. l \<noteq> []) (split_char CHR 0x0A content) = first # rest"
    and "line \<in> set rest" and "length (split_char CHR '' '' line) < 4"
  shows "\<exists>e. parse_config uni path (Inr content) = Inl e"
proof -
  have "\<exists>e. parse_entry_line uni path line = Inl e"
    using assms(4) by (auto simp: parse_entry_line_def)
  with assms(3) have "\<exists>e. traverse (parse_entry_line uni path) rest = Inl e"
    unfolding traverse_Inl_iff by blast
  with assms(1,2) show ?thesis
    by (auto simp: parse_config_lines read_to_string_def split: sum.splits prod.splits)
qed

definition short_file :: string where
  "short_file = ''10.88.0.1'' @ [CHR 0x0A] @ ''95655f hopefulmontalcini,testdbctr''"

theorem short_line_rejects_file_witness:
  "\<exists>e. parse_config id ''podman'' (Inr short_file) = Inl e"
proof -
  have "filter (\<lambda>l. l \<noteq> []) (split_char CHR 0x0A short_file) =
      [''10.88.0.1'', ''95655f hopefulmontalcini,testdbctr'']" by code_simp
  moreover have "utf8_valid short_file"
    "length (split_char CHR '' '' ''95655f hopefulmontalcini,testdbctr'') < 4" by code_simp+
  ultimately show ?thesis by (intro short_line_rejects_file) auto
qed

text \<open>One container entry per non-empty line after the first, so no line is skipped and
  none is counted twice.\<close>

theorem parse_config_counts_lines:
  assumes "parse_config uni path (Inr content) = Inr c"
  shows "Suc (length (container_entry c)) =
    length (filter (\<lambda>l. l \<noteq> []) (split_char CHR 0x0A content))"
  using assms
  by (auto simp: parse_config_lines read_to_string_def traverse_length
      split: if_splits sum.splits list.splits prod.splits)

theorem parse_config_counts_lines_witness:
  "Suc (length (container_entry sample_config)) =
    length (filter (\<lambda>l. l \<noteq> []) (split_char CHR 0x0A sample_file))"
  by (rule parse_config_counts_lines [OF sample_parsed])

text \<open>Custom DNS servers are only read from a line of exactly five columns; a sixth column
  (a stray blank at the end of the line) silently drops them.\<close>

theorem dns_column_needs_five:
  assumes "parse_entry_line uni path line = Inr e" and "length (split_char CHR '' '' line) \<noteq> 5"
  shows "ctr_dns_servers e = None"
  using assms by (auto simp: parse_entry_line_def Let_def split: if_splits sum.splits)

definition trailing_blank_line :: string where
  "trailing_blank_line = ''68fb29 10.88.0.2  ctr1,ctra 8.8.8.8 ''"

theorem dns_column_needs_five_witness:
  "parse_entry_line id ''podman'' trailing_blank_line = Inr (sample_entry\<lparr>ctr_dns_servers := None\<rparr>) \<and>
   ctr_dns_servers (sample_entry\<lparr>ctr_dns_servers := None\<rparr>) = None"
proof -
  have parsed: "parse_entry_line id ''podman'' trailing_blank_line =
      Inr (sample_entry\<lparr>ctr_dns_servers := None\<rparr>)" by code_simp
  moreover have "length (split_char CHR '' '' trailing_blank_line) \<noteq> 5" by code_simp
  ultimately show ?thesis using dns_column_needs_five [OF parsed] by blast
qed

end
