(* ===== verification/Resolv_Conf.thy ===== *)
theory Resolv_Conf
  imports Config
begin

text \<open>
  \<open>parse_resolv_conf\<close> and \<open>get_upstream_resolvers\<close> of \<open>src/server/serve.rs\<close>: the upstream
  servers the host's \<open>/etc/resolv.conf\<close> names.  The interface index of a scope name is
  answered by the kernel, through the nix crate: the argument \<open>if_nametoindex\<close>.
\<close>

section \<open>The parser\<close>

definition DNS_PORT :: u16 where
  "DNS_PORT = 53"

text \<open>The zone of a link-local address: a number, or the name of an interface.\<close>

definition resolve_scope ::
  "('n \<Rightarrow> io_error) \<Rightarrow> (string \<Rightarrow> 'n + 32 word) \<Rightarrow> string \<Rightarrow> 32 word aardvark_result" where
  "resolve_scope into_io if_nametoindex scope_name =
     (case parse_u32 scope_name of
        Some id' \<Rightarrow> Inr id'
      | None \<Rightarrow> wrap (from_nix_error into_io) (if_nametoindex scope_name) ''resolve scope id'')"

text \<open>The address of a \<open>nameserver\<close> line.\<close>

definition parse_nameserver ::
  "('n \<Rightarrow> io_error) \<Rightarrow> (string \<Rightarrow> 'n + 32 word) \<Rightarrow> string \<Rightarrow> socket_addr aardvark_result" where
  "parse_nameserver into_io if_nametoindex ip =
     (case (case split_once (\<lambda>c. c = CHR ''%'') ip of
              Some (ip, scope_name) \<Rightarrow>
                (case resolve_scope into_io if_nametoindex scope_name of
                   Inl e \<Rightarrow> Inl e
                 | Inr id' \<Rightarrow> Inr (ip, Some id'))
            | None \<Rightarrow> Inr (ip, None)) of
        Inl e \<Rightarrow> Inl e
      | Inr (ip, scope) \<Rightarrow>
          (case wrap from_addr_parse_error
                  (case parse_ip ip of Some a \<Rightarrow> Inr a | None \<Rightarrow> Inl Addr_Ip) ip of
             Inl e \<Rightarrow> Inl e
           | Inr (V4 a) \<Rightarrow>
               if scope \<noteq> None then Inl (error_msg ''scope id not supported for ipv4 address'')
               else Inr (Sock4 a DNS_PORT)
           | Inr (V6 b) \<Rightarrow>
               Inr (Sock6 b DNS_PORT 0 (case scope of None \<Rightarrow> 0 | Some id' \<Rightarrow> id'))))"

definition strip_comment :: "string \<Rightarrow> string" where
  "strip_comment line =
     (case split_once (\<lambda>c. c = CHR ''#'' \<or> c = CHR '';'') line of
        Some (f, _) \<Rightarrow> f
      | None \<Rightarrow> line)"

text \<open>The loop over the lines; \<open>nameservers\<close> is the vector it fills.\<close>

fun parse_resolv_lines ::
  "('n \<Rightarrow> io_error) \<Rightarrow> (string \<Rightarrow> 'n + 32 word) \<Rightarrow> string list \<Rightarrow> socket_addr list \<Rightarrow>
   socket_addr list aardvark_result"
where
  "parse_resolv_lines into_io if_nametoindex [] nameservers = Inr nameservers"
| "parse_resolv_lines into_io if_nametoindex (line # lines) nameservers =
     (case split_whitespace (strip_comment line) of
        [] \<Rightarrow> parse_resolv_lines into_io if_nametoindex lines nameservers
      | first # line_parts \<Rightarrow>
          if first = ''nameserver'' then
            (case line_parts of
               [] \<Rightarrow> parse_resolv_lines into_io if_nametoindex lines nameservers
             | ip # _ \<Rightarrow>
                 (case parse_nameserver into_io if_nametoindex ip of
                    Inl e \<Rightarrow> Inl e
                  | Inr addr \<Rightarrow>
                      parse_resolv_lines into_io if_nametoindex lines (nameservers @ [addr])))
          else parse_resolv_lines into_io if_nametoindex lines nameservers)"

definition parse_resolv_conf ::
  "('n \<Rightarrow> io_error) \<Rightarrow> (string \<Rightarrow> 'n + 32 word) \<Rightarrow> string \<Rightarrow> socket_addr list aardvark_result" where
  "parse_resolv_conf into_io if_nametoindex content =
     (case parse_resolv_lines into_io if_nametoindex (split_char CHR 0x0A content) [] of
        Inl e \<Rightarrow> Inl e
      | Inr nameservers \<Rightarrow> Inr (take 3 nameservers))"

text \<open>\<open>resolv_conf\<close> is what opening the file gives: an error, or what reading it gives.\<close>

definition get_upstream_resolvers ::
  "('n \<Rightarrow> io_error) \<Rightarrow> (string \<Rightarrow> 'n + 32 word) \<Rightarrow> io_error + (io_error + string) \<Rightarrow>
   socket_addr list aardvark_result" where
  "get_upstream_resolvers into_io if_nametoindex resolv_conf =
     (case wrap from_io_error resolv_conf ''open resolv.conf'' of
        Inl e \<Rightarrow> Inl e
      | Inr f \<Rightarrow>
          (case wrap from_io_error (read_to_string f) ''read resolv.conf'' of
             Inl e \<Rightarrow> Inl e
           | Inr buf \<Rightarrow> parse_resolv_conf into_io if_nametoindex buf))"

section \<open>The loop as a specification\<close>

text \<open>The arguments of the \<open>nameserver\<close> lines of a file, in order.\<close>

definition nameserver_arg :: "string \<Rightarrow> string option" where
  "nameserver_arg line =
     (case split_whitespace (strip_comment line) of
        first # ip # _ \<Rightarrow> if first = ''nameserver'' then Some ip else None
      | _ \<Rightarrow> None)"

definition nameserver_args :: "string \<Rightarrow> string list" where
  "nameserver_args content = List.map_filter nameserver_arg (split_char CHR 0x0A content)"

lemma parse_resolv_lines_traverse:
  "parse_resolv_lines into_io ifi lines ns =
     (case traverse (parse_nameserver into_io ifi) (List.map_filter nameserver_arg lines) of
        Inl e \<Rightarrow> Inl e
      | Inr addrs \<Rightarrow> Inr (ns @ addrs))"
proof (induction into_io ifi lines ns rule: parse_resolv_lines.induct)
  case (1 into_io ifi ns)
  then show ?case by (simp add: map_filter_simps)
next
  case (2 into_io ifi line lines ns)
  then show ?case
    by (cases "split_whitespace (strip_comment line)"; cases "tl (split_whitespace (strip_comment line))")
      (auto simp: map_filter_simps nameserver_arg_def split: sum.splits)
qed

lemma parse_resolv_conf_args:
  "parse_resolv_conf into_io ifi content =
     (case traverse (parse_nameserver into_io ifi) (nameserver_args content) of
        Inl e \<Rightarrow> Inl e
      | Inr addrs \<Rightarrow> Inr (take 3 addrs))"
  by (auto simp: parse_resolv_conf_def parse_resolv_lines_traverse nameserver_args_def
      split: sum.splits)

text \<open>C38: The parser takes the first three of the addresses the \<open>nameserver\<close> lines of the file
  name, in the order of the file; the file is accepted exactly when every such line has a
  valid address, also those after the third.\<close>

theorem resolv_conf_spec:
  "(parse_resolv_conf into_io ifi content = Inr ns \<longleftrightarrow>
     (\<exists>addrs. list_all2 (\<lambda>arg addr. parse_nameserver into_io ifi arg = Inr addr)
        (nameserver_args content) addrs \<and> ns = take 3 addrs)) \<and>
   ((\<exists>e. parse_resolv_conf into_io ifi content = Inl e) \<longleftrightarrow>
     list_ex (\<lambda>arg. \<exists>e. parse_nameserver into_io ifi arg = Inl e) (nameserver_args content))"
proof -
  let ?t = "traverse (parse_nameserver into_io ifi) (nameserver_args content)"
  have "(\<exists>e. ?t = Inl e) \<longleftrightarrow>
      list_ex (\<lambda>arg. \<exists>e. parse_nameserver into_io ifi arg = Inl e) (nameserver_args content)"
    unfolding traverse_Inl_iff list_ex_iff by blast
  moreover have "(\<exists>e. parse_resolv_conf into_io ifi content = Inl e) \<longleftrightarrow> (\<exists>e. ?t = Inl e)"
    unfolding parse_resolv_conf_args by (cases ?t) auto
  moreover have "parse_resolv_conf into_io ifi content = Inr ns \<longleftrightarrow> (\<exists>addrs. ?t = Inr addrs \<and> ns = take 3 addrs)"
    unfolding parse_resolv_conf_args by (cases ?t) auto
  ultimately show ?thesis unfolding traverse_Inr_iff by simp
qed

lemma parse_nameserver_port: "parse_nameserver into_io ifi arg = Inr addr \<Longrightarrow> socket_port addr = DNS_PORT"
  by (auto simp: parse_nameserver_def split: sum.splits option.splits prod.splits ip_addr.splits if_splits)

lemma resolv_bounds:
  assumes "parse_resolv_conf into_io ifi content = Inr ns"
  shows "length ns \<le> 3 \<and> list_all (\<lambda>addr. socket_port addr = DNS_PORT) ns"
proof -
  obtain addrs where addrs: "traverse (parse_nameserver into_io ifi) (nameserver_args content) = Inr addrs"
    and ns: "ns = take 3 addrs"
    using assms unfolding parse_resolv_conf_args by (auto split: sum.splits)
  have "socket_port addr = DNS_PORT" if "addr \<in> set addrs" for addr
    using addrs that unfolding traverse_Inr_iff list_all2_conv_all_nth in_set_conv_nth
    by (auto intro: parse_nameserver_port)
  then show ?thesis unfolding ns by (auto simp: list_all_iff dest: in_set_takeD)
qed

text \<open>Whatever the file says, at most three servers are used and all of them on port 53.\<close>

theorem resolv_conf_bounds:
  assumes "parse_resolv_conf into_io ifi content = Inr ns"
  shows "length ns \<le> 3 \<and> list_all (\<lambda>addr. socket_port addr = DNS_PORT) ns"
  by (rule resolv_bounds [OF assms])

section \<open>Comments\<close>

definition comment :: "string \<Rightarrow> bool" where
  "comment c \<longleftrightarrow> c = [] \<or> hd c = CHR ''#'' \<or> hd c = CHR '';''"

lemma split_once_cut:
  "split_once P (a @ b) =
     (case split_once P a of Some (x, y) \<Rightarrow> Some (x, y @ b)
      | None \<Rightarrow> map_option (\<lambda>(x, y). (a @ x, y)) (split_once P b))"
proof (induction a)
  case Nil
  then show ?case by (simp add: case_prod_unfold option.map_ident)
next
  case (Cons c a)
  then show ?case by (cases "split_once P a"; cases "split_once P b") auto
qed

lemma strip_comment_append:
  assumes "comment c"
  shows "strip_comment (line @ c) = strip_comment line"
proof (cases c)
  case Nil
  then show ?thesis by simp
next
  case (Cons x xs)
  let ?P = "\<lambda>c. c = CHR ''#'' \<or> c = CHR '';''"
  have "?P x" using assms by (simp add: comment_def Cons)
  then have "split_once ?P c = Some ([], xs)" by (auto simp: Cons)
  then show ?thesis
    unfolding strip_comment_def split_once_cut [of ?P line c]
    by (auto split: option.splits)
qed

lemma nameserver_arg_comment: "comment c \<Longrightarrow> nameserver_arg (line @ c) = nameserver_arg line"
  by (simp add: nameserver_arg_def strip_comment_append)

text \<open>Comments never matter: text from \<open>#\<close> or \<open>;\<close> to the end of a line can be added to
  the lines of a file, after a nameserver too, without changing the result.\<close>

theorem resolv_conf_ignores_comments:
  assumes "lines \<noteq> []" and "list_all (\<lambda>(line, c). CHR 0x0A \<notin> set (line @ c) \<and> comment c) lines"
  shows "parse_resolv_conf into_io ifi (join [CHR 0x0A] (map (\<lambda>(line, c). line @ c) lines)) =
    parse_resolv_conf into_io ifi (join [CHR 0x0A] (map fst lines))"
proof -
  have split: "split_char CHR 0x0A (join [CHR 0x0A] (map (\<lambda>(line, c). line @ c) lines)) =
      map (\<lambda>(line, c). line @ c) lines"
    "split_char CHR 0x0A (join [CHR 0x0A] (map fst lines)) = map fst lines"
    using assms by (intro split_join; force simp: list_all_iff)+
  have "List.map_filter nameserver_arg (map (\<lambda>(line, c). line @ c) ls) =
      List.map_filter nameserver_arg (map fst ls)"
    if "list_all (\<lambda>(line, c). comment c) ls" for ls
    using that
    by (induction ls) (auto simp: map_filter_simps nameserver_arg_comment split: option.split)
  moreover have "list_all (\<lambda>(line, c). comment c) lines"
    using assms(2) by (auto simp: list_all_iff)
  ultimately show ?thesis unfolding parse_resolv_conf_args nameserver_args_def split by simp
qed

definition sample_resolv :: "(string \<times> string) list" where
  "sample_resolv = [(''search example.org'', []), (''nameserver 1.1.1.1 '', ''# first''),
     ([], ''; none''), (''nameserver fe80::1%3'', [])]"

theorem resolv_conf_ignores_comments_witness:
  "parse_resolv_conf id (\<lambda>_. Inl (Io_Error OtherKind ''''))
     (join [CHR 0x0A] (map (\<lambda>(line, c). line @ c) sample_resolv)) =
     Inr [Sock4 (Ipv4 1 1 1 1) 53, Sock6 (Ipv6 0xfe80 0 0 0 0 0 0 1) 53 0 3]"
proof -
  have "parse_resolv_conf id (\<lambda>_. Inl (Io_Error OtherKind ''''))
      (join [CHR 0x0A] (map (\<lambda>(line, c). line @ c) sample_resolv)) =
    parse_resolv_conf id (\<lambda>_. Inl (Io_Error OtherKind ''''))
      (join [CHR 0x0A] (map fst sample_resolv))"
    by (rule resolv_conf_ignores_comments) code_simp+
  also have "\<dots> = Inr [Sock4 (Ipv4 1 1 1 1) 53, Sock6 (Ipv6 0xfe80 0 0 0 0 0 0 1) 53 0 3]"
    by code_simp
  finally show ?thesis .
qed

definition four_servers :: string where
  "four_servers = join [CHR 0x0A]
     [''nameserver 1.1.1.1'', ''nameserver 1.1.1.2'', ''nameserver 1.1.1.3'', ''nameserver 1.1.1.4'']"

theorem resolv_conf_bounds_witness:
  "\<exists>ns. parse_resolv_conf id (\<lambda>_. Inl (Io_Error OtherKind '''')) four_servers = Inr ns \<and>
     length ns = 3 \<and> list_all (\<lambda>addr. socket_port addr = DNS_PORT) ns"
proof -
  let ?ns = "[Sock4 (Ipv4 1 1 1 1) 53, Sock4 (Ipv4 1 1 1 2) 53, Sock4 (Ipv4 1 1 1 3) 53]"
  have ok: "parse_resolv_conf id (\<lambda>_. Inl (Io_Error OtherKind '''')) four_servers = Inr ?ns"
    by code_simp
  from resolv_conf_bounds [OF ok] ok show ?thesis by simp
qed

section \<open>Round trip\<close>

text \<open>Nameserver lines as \<open>resolv.conf(5)\<close> describes them.\<close>

fun render_nameserver :: "socket_addr \<Rightarrow> string" where
  "render_nameserver (Sock4 a port) = ''nameserver '' @ show_ipv4 a"
| "render_nameserver (Sock6 b port flow scope) =
     ''nameserver '' @ show_ipv6 b @ (if scope = 0 then [] else ''%'' @ show_int 10 (uint scope))"

fun dns_socket :: "socket_addr \<Rightarrow> bool" where
  "dns_socket (Sock4 a port) \<longleftrightarrow> port = DNS_PORT"
| "dns_socket (Sock6 b port flow scope) \<longleftrightarrow> port = DNS_PORT \<and> flow = 0"

lemma show_int_digits: "0 \<le> n \<Longrightarrow> c \<in> set (show_int 10 n) \<Longrightarrow> \<exists>d. 0 \<le> d \<and> d < 10 \<and> c = digit_char d"
  using to_digits_bound [of 10 n] by (auto simp: show_int_def)

lemma show_int_plain: "0 \<le> n \<Longrightarrow> plain (show_int 10 n)"
proof -
  assume "0 \<le> n"
  have "byte_in 33 126 c" if "c \<in> set (show_int 10 n)" for c
    using show_int_digits [OF \<open>0 \<le> n\<close> that] by (auto simp: byte_in_def byte_digit_char)
  then show ?thesis by (simp add: plain_def list_all_iff)
qed

lemma parse_show_u32: "parse_u32 (show_int 10 (uint (n :: 32 word))) = Some n"
proof -
  let ?ds = "to_digits 10 (uint n)"
  have ds: "0 \<le> d \<and> d < 10" if "d \<in> set ?ds" for d
    using to_digits_bound [of 10 "uint n" d] that by simp
  have "hd (show_int 10 (uint n)) \<noteq> CHR ''+''"
  proof
    assume "hd (show_int 10 (uint n)) = CHR ''+''"
    moreover have "hd (show_int 10 (uint n)) = digit_char (hd ?ds)"
      by (simp add: show_int_def hd_map)
    moreover have "byte CHR ''+'' = 43" by code_simp
    ultimately have "byte (digit_char (hd ?ds)) = 43" by simp
    moreover have "hd ?ds \<in> set ?ds" by simp
    ultimately show False using ds [of "hd ?ds"] by (simp add: byte_digit_char)
  qed
  then have sign: "(case show_int 10 (uint n) of [] \<Rightarrow> show_int 10 (uint n)
      | c # t \<Rightarrow> if c = CHR ''+'' then t else show_int 10 (uint n)) = show_int 10 (uint n)"
    by (cases "show_int 10 (uint n)") auto
  have digits: "map (\<lambda>c. the (to_digit 10 c)) (show_int 10 (uint n)) = ?ds"
    using ds by (auto simp: show_int_def intro!: map_idI)
  have "list_all (\<lambda>c. to_digit 10 c \<noteq> None) (show_int 10 (uint n))"
    using ds by (auto simp: show_int_def list_all_iff)
  moreover have "show_int 10 (uint n) \<noteq> []" by (simp add: show_int_def)
  moreover have "uint n < 2 ^ 32" using uint_lt2p [of n] by simp
  ultimately show ?thesis by (simp add: parse_u32_def sign digits Let_def)
qed

lemma not_hex_percent: "ip_text s \<Longrightarrow> CHR ''%'' \<notin> set s"
  by (rule ip_text_excludes) simp_all

lemma nameserver_line:
  assumes "plain ip" "ip \<noteq> []" "CHR ''#'' \<notin> set ip" "CHR '';'' \<notin> set ip"
  shows "nameserver_arg (''nameserver '' @ ip) = Some ip"
proof -
  have "split_once (\<lambda>c. c = CHR ''#'' \<or> c = CHR '';'') (''nameserver '' @ ip) = None"
    using assms unfolding split_once_None_iff by auto
  then have strip: "strip_comment (''nameserver '' @ ip) = ''nameserver '' @ ip"
    by (simp add: strip_comment_def)
  have name: "plain ''nameserver''" "byte CHR '' '' = 32" by code_simp+
  have "split_whitespace (''nameserver'' @ '' '' @ ip) = [''nameserver'', ip]"
    unfolding split_whitespace_def ws_pieces_plain [OF name(1)]
    using ws_pieces_plain [OF assms(1), of "[]" "[]"] assms(2)
      ws_pieces_space [OF name(2), of "''nameserver''" ip]
    by simp
  then show ?thesis unfolding nameserver_arg_def strip by simp
qed

lemma not_comment [simp]:
  "to_digit 16 CHR ''#'' = None" "to_digit 16 CHR '';'' = None" "to_digit 16 CHR ''%'' = None"
  by code_simp+

lemma ip_text_nameserver:
  "ip_text s \<Longrightarrow> plain s \<and> CHR ''#'' \<notin> set s \<and> CHR '';'' \<notin> set s \<and> CHR ''%'' \<notin> set s"
  using ip_text_plain [of s] ip_text_excludes [of s "CHR ''#''"] ip_text_excludes [of s "CHR '';''"]
    ip_text_excludes [of s "CHR ''%''"] by simp

lemma ip_text_number: "0 \<le> n \<Longrightarrow> ip_text (show_int 10 n)"
proof -
  assume n: "0 \<le> n"
  have "to_digit 16 c \<noteq> None" if "c \<in> set (show_int 10 n)" for c
    using show_int_digits [OF n that] by auto
  then show ?thesis by (simp add: ip_text_def)
qed

lemma parse_nameserver_plain:
  "parse_nameserver into_io ifi (show_ip ip) = Inr (socket_new ip DNS_PORT)"
proof -
  have "split_once (\<lambda>c. c = CHR ''%'') (show_ip ip) = None"
    unfolding split_once_None_iff using ip_text_nameserver [of "show_ip ip"] by auto
  then show ?thesis by (cases ip) (simp_all add: parse_nameserver_def del: show_ip.simps)
qed

lemma parse_nameserver_scoped:
  "parse_nameserver into_io ifi (show_ipv6 b @ ''%'' @ show_int 10 (uint scope)) =
     Inr (Sock6 b DNS_PORT 0 scope)"
proof -
  have "split_once (\<lambda>c. c = CHR ''%'') (show_ipv6 b @ CHR ''%'' # show_int 10 (uint scope)) =
      Some (show_ipv6 b, show_int 10 (uint scope))"
    by (rule split_once_append) (use ip_text_nameserver [of "show_ipv6 b"] in auto)
  then show ?thesis
    using parse_show_ip [of "V6 b"]
    by (simp add: parse_nameserver_def resolve_scope_def parse_show_u32)
qed

lemma render_nameserver_arg:
  assumes "dns_socket addr"
  shows "\<exists>ip. nameserver_arg (render_nameserver addr) = Some ip \<and>
     CHR 0x0A \<notin> set (render_nameserver addr) \<and> parse_nameserver into_io ifi ip = Inr addr"
proof -
  define ip where "ip = drop 11 (render_nameserver addr)"
  have shape: "render_nameserver addr = ''nameserver '' @ ip"
    unfolding ip_def by (cases addr) simp_all
  have chr: "ip_text ip \<or> (\<exists>x y. ip = x @ CHR ''%'' # y \<and> ip_text x \<and> ip_text y)"
    unfolding ip_def using ip_text_number by (cases addr) (auto 0 4)
  have percent: "plain ''%''" by code_simp
  have chars: "plain ip" "CHR ''#'' \<notin> set ip" "CHR '';'' \<notin> set ip"
    using chr percent by (auto dest: ip_text_nameserver)
  have ne: "ip \<noteq> []" unfolding ip_def by (cases addr) simp_all
  have "parse_nameserver into_io ifi ip = Inr addr"
    unfolding ip_def using assms parse_nameserver_scoped [of into_io ifi]
      parse_nameserver_plain [of into_io ifi "V4 _"] parse_nameserver_plain [of into_io ifi "V6 _"]
    by (cases addr) simp_all
  moreover have "CHR 0x0A \<notin> set (render_nameserver addr)"
    using plain_separators [OF chars(1)] by (simp add: shape)
  moreover have "nameserver_arg (render_nameserver addr) = Some ip"
    unfolding shape by (rule nameserver_line [OF chars(1) ne chars(2,3)])
  ultimately show ?thesis by blast
qed

text \<open>C39: A file written with one nameserver line per upstream server, scope ids of IPv6
  addresses included, is read back as the first three of these servers.\<close>

theorem resolv_conf_round_trip:
  assumes "addrs \<noteq> []" and "list_all dns_socket addrs"
  shows "parse_resolv_conf into_io ifi (join [CHR 0x0A] (map render_nameserver addrs)) =
    Inr (take 3 addrs)"
proof -
  have split: "split_char CHR 0x0A (join [CHR 0x0A] (map render_nameserver addrs)) =
      map render_nameserver addrs"
    using assms render_nameserver_arg by (intro split_join) (auto simp: list_all_iff)
  have "traverse (parse_nameserver into_io ifi) (List.map_filter nameserver_arg (map render_nameserver xs)) =
      Inr xs" if "list_all dns_socket xs" for xs
    using that
  proof (induction xs)
    case Nil
    then show ?case by (simp add: map_filter_simps)
  next
    case (Cons a xs)
    then obtain ip where "nameserver_arg (render_nameserver a) = Some ip"
      "parse_nameserver into_io ifi ip = Inr a"
      using render_nameserver_arg [of a into_io ifi] by auto
    with Cons show ?case by (simp add: map_filter_simps)
  qed
  from this [OF assms(2)] show ?thesis
    by (simp add: parse_resolv_conf_args nameserver_args_def split)
qed

theorem resolv_conf_round_trip_witness:
  "parse_resolv_conf id (\<lambda>_. Inl (Io_Error OtherKind '''')) (join [CHR 0x0A] (map render_nameserver
     [Sock4 (Ipv4 9 9 9 9) 53, Sock6 (Ipv6 0xfe80 0 0 0 0 0 0 1) 53 0 2])) =
     Inr [Sock4 (Ipv4 9 9 9 9) 53, Sock6 (Ipv6 0xfe80 0 0 0 0 0 0 1) 53 0 2]"
  by (subst resolv_conf_round_trip) (simp_all add: DNS_PORT_def)

end
