(* ===== verification/Dns_Message.thy ===== *)
theory Dns_Message
  imports Resolv_Conf
begin

text \<open>
  DNS messages as \<open>src/dns/coredns.rs\<close> uses them.  Names, records and the codec are code of
  the hickory crates: the type of names \<open>'n\<close>, of resource records \<open>'r\<close> and of everything in a
  message the program never looks at (\<open>'x\<close>) are type variables, and the functions the program
  calls are the fields of the record \<open>hickory\<close>.  What the program relies on is the predicate
  \<open>hickory_ok\<close>: the documented effect of \<open>into_response\<close> and \<open>add_answer\<close> on the fields the
  program reads or writes.
\<close>

section \<open>Messages\<close>

datatype record_type = RT_A | RT_AAAA | RT_PTR | RT_Other u16

datatype response_code = NoError | NXDomain | Other_Code u16

datatype 'n rdata = RData_A ipv4 | RData_AAAA ipv6 | RData_PTR 'n

record 'n query =
  query_name :: 'n
  query_type :: record_type
  query_class :: u16

record ('n, 'r, 'x) message =
  msg_id :: u16
  recursion_desired :: bool
  recursion_available :: bool
  response_code :: response_code
  queries :: "'n query list"
  answers :: "'r list"
  msg_rest :: 'x

text \<open>\<open>SerialMessage\<close>: the bytes of a message and the address of the peer.\<close>

type_synonym serial_message = "string \<times> socket_addr"

record ('n, 'r, 'x) hickory =
  from_vec :: "string \<Rightarrow> ('n, 'r, 'x) message option"
  to_vec :: "('n, 'r, 'x) message \<Rightarrow> string option"
  into_response :: "('n, 'r, 'x) message \<Rightarrow> ('n, 'r, 'x) message"
  add_answer :: "'r \<Rightarrow> ('n, 'r, 'x) message \<Rightarrow> ('n, 'r, 'x) message"
  from_rdata :: "'n \<Rightarrow> 32 word \<Rightarrow> 'n rdata \<Rightarrow> 'r"
  name_default :: 'n
  name_to_string :: "'n \<Rightarrow> string"
  name_from_ascii :: "string \<Rightarrow> 'n option"
  name_from_str_relaxed :: "string \<Rightarrow> 'n option"

definition hickory_ok :: "('n, 'r, 'x) hickory \<Rightarrow> bool" where
  "hickory_ok H \<longleftrightarrow>
     (\<forall>m. msg_id (into_response H m) = msg_id m \<and>
        recursion_desired (into_response H m) = recursion_desired m \<and>
        recursion_available (into_response H m) = recursion_available m \<and>
        response_code (into_response H m) = response_code m \<and>
        queries (into_response H m) = queries m \<and> answers (into_response H m) = answers m) \<and>
     (\<forall>r m. add_answer H r m = m\<lparr>answers := answers m @ [r]\<rparr>)"

section \<open>Replies and requests\<close>

text \<open>The message \<open>reply\<close> encodes, and \<open>reply\<close> itself: what is handed to the sender, if anything.\<close>

definition reply_message :: "('n, 'r, 'x) hickory \<Rightarrow> ('n, 'r, 'x) message \<Rightarrow> ('n, 'r, 'x) message" where
  "reply_message H msg =
     (let msg_mut = into_response H msg
      in if recursion_desired msg \<and> \<not> recursion_available msg
         then msg_mut\<lparr>recursion_available := True\<rparr>
         else msg_mut)"

definition reply ::
  "('n, 'r, 'x) hickory \<Rightarrow> socket_addr \<Rightarrow> ('n, 'r, 'x) message \<Rightarrow> serial_message option" where
  "reply H socket_addr msg =
     (case to_vec H (reply_message H msg) of
        None \<Rightarrow> None
      | Some bytes \<Rightarrow> Some (bytes, socket_addr))"

text \<open>A message without a question is a query for an address of the root.\<close>

definition parse_dns_msg ::
  "('n, 'r, 'x) hickory \<Rightarrow> serial_message \<Rightarrow> ('n \<times> record_type \<times> ('n, 'r, 'x) message) option" where
  "parse_dns_msg H body =
     (case from_vec H (fst body) of
        Some msg \<Rightarrow>
          (case queries msg of
             [] \<Rightarrow> Some (name_default H, RT_A, msg)
           | q # _ \<Rightarrow> Some (query_name q, query_type q, msg))
      | None \<Rightarrow> None)"

section \<open>What replies keep\<close>

lemma hickory_into_response [simp]:
  assumes "hickory_ok H"
  shows "msg_id (into_response H m) = msg_id m"
    and "recursion_desired (into_response H m) = recursion_desired m"
    and "recursion_available (into_response H m) = recursion_available m"
    and "response_code (into_response H m) = response_code m"
    and "queries (into_response H m) = queries m"
    and "answers (into_response H m) = answers m"
  using assms unfolding hickory_ok_def by blast+

lemma hickory_add_answer:
  "hickory_ok H \<Longrightarrow> add_answer H r m = m\<lparr>answers := answers m @ [r]\<rparr>"
  unfolding hickory_ok_def by blast

lemma fold_add_answer:
  "hickory_ok H \<Longrightarrow> fold (add_answer H) rs m = m\<lparr>answers := answers m @ rs\<rparr>"
  by (induction rs arbitrary: m) (simp_all add: hickory_add_answer)

lemma reply_message_fields [simp]:
  assumes "hickory_ok H"
  shows "msg_id (reply_message H m) = msg_id m"
    and "queries (reply_message H m) = queries m"
    and "answers (reply_message H m) = answers m"
    and "response_code (reply_message H m) = response_code m"
    and "recursion_available (reply_message H m) = (recursion_available m \<or> recursion_desired m)"
  using assms by (auto simp: reply_message_def Let_def)

lemma parse_dns_msg_Some:
  assumes "from_vec H bytes = Some msg" and "queries msg = q # qs"
  shows "parse_dns_msg H (bytes, src) = Some (query_name q, query_type q, msg)"
  using assms by (simp add: parse_dns_msg_def)

section \<open>A concrete codec\<close>

text \<open>
  An instance of the interface, for witnesses: names are texts, and a message on the wire is
  its question alone (two bytes of identifier, a byte of flags, a byte for the type, the name).
\<close>

type_synonym wire_record = "string \<times> 32 word \<times> string rdata"

definition type_of_byte :: "char \<Rightarrow> record_type" where
  "type_of_byte c =
     (if byte c = 1 then RT_A else if byte c = 28 then RT_AAAA
      else if byte c = 12 then RT_PTR else RT_Other (word_of_int (byte c)))"

fun wire_decode :: "string \<Rightarrow> (string, wire_record, unit) message option" where
  "wire_decode (hi # lo # flags # t # name) =
     Some \<lparr>msg_id = word_of_int (256 * byte hi + byte lo), recursion_desired = byte flags = 1,
           recursion_available = False, response_code = NoError,
           queries = [\<lparr>query_name = name, query_type = type_of_byte t, query_class = 1\<rparr>],
           answers = [], msg_rest = ()\<rparr>"
| "wire_decode _ = None"

fun wire_rdata :: "string rdata \<Rightarrow> string" where
  "wire_rdata (RData_A a) = show_ipv4 a"
| "wire_rdata (RData_AAAA b) = show_ipv6 b"
| "wire_rdata (RData_PTR n) = n"

fun wire_code :: "response_code \<Rightarrow> string" where
  "wire_code NoError = ''ok''"
| "wire_code NXDomain = ''nx''"
| "wire_code (Other_Code c) = ''other''"

definition wire_encode :: "(string, wire_record, unit) message \<Rightarrow> string option" where
  "wire_encode m = Some (join '' ''
     (wire_code (response_code m) # map (\<lambda>(n, t, d). n @ ''='' @ wire_rdata d) (answers m)))"

definition wire :: "(string, wire_record, unit) hickory" where
  "wire = \<lparr>from_vec = wire_decode, to_vec = wire_encode, into_response = (\<lambda>m. m),
     add_answer = (\<lambda>r m. m\<lparr>answers := answers m @ [r]\<rparr>), from_rdata = (\<lambda>n t d. (n, t, d)),
     name_default = ''.'', name_to_string = (\<lambda>n. n), name_from_ascii = Some,
     name_from_str_relaxed = Some\<rparr>"

lemma wire_ok [simp]: "hickory_ok wire"
  by (simp add: hickory_ok_def wire_def)

end
