(* ===== verification/Core_Dns.thy ===== *)
theory Core_Dns
  imports Dns_Message
begin

text \<open>
  \<open>src/dns/coredns.rs\<close>: how the server answers one message.  \<open>process_message\<close> takes the
  data of the server, the current store, the message and its transport, and says what happens:
  nothing, one reply, or a request forwarded to a list of upstream servers.
\<close>

section \<open>Reverse queries\<close>

text \<open>The text of the address a reverse name stands for, \<open>None\<close> for a name of another form.\<close>

fun push_nibbles :: "nat \<Rightarrow> string list \<Rightarrow> string" where
  "push_nibbles i [] = []"
| "push_nibbles i (c # cs) =
     c @ (if i mod 4 = 3 \<and> i < 31 then '':'' else []) @ push_nibbles (i + 1) cs"

definition ptr_lookup_ip :: "string \<Rightarrow> string option" where
  "ptr_lookup_ip name =
     (case strip_suffix ''.in-addr.arpa.'' name of
        Some n \<Rightarrow> Some (join ''.'' (rev (split_char CHR ''.'' n)))
      | None \<Rightarrow>
          (case strip_suffix ''.ip6.arpa.'' name of
             Some n \<Rightarrow> Some (push_nibbles 0 (rev (split_char CHR ''.'' n)))
           | None \<Rightarrow> None))"

text \<open>The PTR records for the names of an address; a name that is no DNS name is left out.\<close>

definition ptr_answer :: "('n, 'r, 'x) hickory \<Rightarrow> string \<Rightarrow> string \<Rightarrow> 'r option" where
  "ptr_answer H name entry =
     (case name_from_ascii H (entry @ ''.'') of
        Some answer \<Rightarrow>
          Some (from_rdata H
            (case name_from_str_relaxed H name of Some n \<Rightarrow> n | None \<Rightarrow> name_default H)
            0 (RData_PTR answer))
      | None \<Rightarrow> None)"

definition reply_ptr ::
  "('n, 'r, 'x) hickory \<Rightarrow> string \<Rightarrow> dns_backend \<Rightarrow> socket_addr \<Rightarrow> ('n, 'r, 'x) message \<Rightarrow>
   ('n, 'r, 'x) message option" where
  "reply_ptr H name be src_address req =
     (case ptr_lookup_ip name of
        None \<Rightarrow> None
      | Some ptr_ip \<Rightarrow>
          (case parse_ip ptr_ip of
             None \<Rightarrow> None
           | Some lookup_ip \<Rightarrow>
               (case reverse_lookup be (socket_ip src_address) lookup_ip of
                  None \<Rightarrow> None
                | Some names \<Rightarrow>
                    Some (fold (\<lambda>entry m. case ptr_answer H name entry of
                            Some record \<Rightarrow> add_answer H record m
                          | None \<Rightarrow> m) names req))))"

section \<open>Address queries\<close>

fun address_data :: "record_type \<Rightarrow> ip_addr \<Rightarrow> 'n rdata option" where
  "address_data RT_A (V4 ipv4) = Some (RData_A ipv4)"
| "address_data RT_AAAA (V6 ipv6) = Some (RData_AAAA ipv6)"
| "address_data _ _ = None"

definition reply_ip ::
  "('n, 'r, 'x) hickory \<Rightarrow> (string \<Rightarrow> string) \<Rightarrow> string \<Rightarrow> 'n \<Rightarrow> string \<Rightarrow> record_type \<Rightarrow>
   dns_backend \<Rightarrow> socket_addr \<Rightarrow> ('n, 'r, 'x) message \<Rightarrow> ('n, 'r, 'x) message option" where
  "reply_ip H uni name request_name network_name record_type be src_address req =
     (case lookup uni be (socket_ip src_address) network_name name of
        None \<Rightarrow> None
      | Some resolved_ip_list \<Rightarrow>
          Some (fold (\<lambda>record_addr m. case address_data record_type record_addr of
                  Some d \<Rightarrow> add_answer H (from_rdata H request_name 0 d) m
                | None \<Rightarrow> m) resolved_ip_list req))"

section \<open>One message\<close>

datatype protocol = Udp | Tcp

text \<open>\<open>CoreDnsData\<close>, with the store as it is when the message is handled.\<close>

record core_dns_data =
  network_name :: string
  backend :: dns_backend
  no_proxy :: bool
  nameservers :: "socket_addr list"

datatype ('n, 'r, 'x) outcome =
    Ignored
  | Replied "serial_message option"
  | Forwarded "socket_addr list" socket_addr "('n, 'r, 'x) message" protocol

text \<open>The upstream servers for a requester.\<close>

definition custom_resolvers :: "dns_backend \<Rightarrow> ip_addr \<Rightarrow> socket_addr list" where
  "custom_resolvers be src =
     (case ctr_dns_server be src of
        Some (Some dns_servers) \<Rightarrow> map (\<lambda>s. socket_new s DNS_PORT) dns_servers
      | _ \<Rightarrow>
          (case get_network_scoped_resolvers be src of
             Some network_dns_servers \<Rightarrow> map (\<lambda>s. socket_new s DNS_PORT) network_dns_servers
           | None \<Rightarrow> []))"

definition upstream_servers :: "core_dns_data \<Rightarrow> ip_addr \<Rightarrow> socket_addr list" where
  "upstream_servers data src =
     (let ns = custom_resolvers (backend data) src
      in if ns = [] then nameservers data else ns)"

text \<open>The answer the store has for a request, if any.\<close>

definition local_answer ::
  "('n, 'r, 'x) hickory \<Rightarrow> (string \<Rightarrow> string) \<Rightarrow> core_dns_data \<Rightarrow> socket_addr \<Rightarrow> 'n \<Rightarrow>
   record_type \<Rightarrow> ('n, 'r, 'x) message \<Rightarrow> ('n, 'r, 'x) message option" where
  "local_answer H uni data src_address request_name record_type req =
     (let request_name_string = name_to_string H request_name
      in case record_type of
           RT_PTR \<Rightarrow> reply_ptr H request_name_string (backend data) src_address req
         | RT_A \<Rightarrow> reply_ip H uni request_name_string request_name (network_name data)
                    record_type (backend data) src_address req
         | RT_AAAA \<Rightarrow> reply_ip H uni request_name_string request_name (network_name data)
                    record_type (backend data) src_address req
         | RT_Other _ \<Rightarrow> None)"

definition may_forward :: "core_dns_data \<Rightarrow> ip_addr \<Rightarrow> string \<Rightarrow> bool" where
  "may_forward data src request_name_string \<longleftrightarrow>
     \<not> (no_proxy data \<or> ctr_is_internal (backend data) src \<or>
        ends_with request_name_string (search_domain (backend data)))"

definition process_message ::
  "('n, 'r, 'x) hickory \<Rightarrow> (string \<Rightarrow> string) \<Rightarrow> core_dns_data \<Rightarrow> serial_message \<Rightarrow> protocol \<Rightarrow>
   ('n, 'r, 'x) outcome" where
  "process_message H uni data msg proto =
     (let src_address = snd msg in
      case parse_dns_msg H msg of
        None \<Rightarrow> Ignored
      | Some (request_name, record_type, req) \<Rightarrow>
          (case local_answer H uni data src_address request_name record_type req of
             Some m \<Rightarrow> Replied (reply H src_address m)
           | None \<Rightarrow>
               if \<not> may_forward data (socket_ip src_address) (name_to_string H request_name)
               then Replied (reply H src_address
                      ((into_response H req)\<lparr>response_code := NXDomain\<rparr>))
               else Forwarded (upstream_servers data (socket_ip src_address)) src_address req proto))"

end
