(* ===== verification/Ptr_Names.thy ===== *)
theory Ptr_Names
  imports Core_Dns
begin

text \<open>
  Reverse names.  The specification is the textual form of RFC 1035 and RFC 3596: the octets of
  an IPv4 address backwards under \<open>in-addr.arpa\<close>, the 32 hexadecimal digits of an IPv6 address
  backwards under \<open>ip6.arpa\<close>.  \<open>ptr_lookup_ip\<close> recovers the address from either.
\<close>

section \<open>The names of RFC 1035 and RFC 3596\<close>

definition nibbles :: "u16 \<Rightarrow> int list" where
  "nibbles g = [uint g div 4096, uint g div 256 mod 16, uint g div 16 mod 16, uint g mod 16]"

fun octets :: "ipv4 \<Rightarrow> u8 list" where
  "octets (Ipv4 a b c d) = [a, b, c, d]"

fun arpa_name :: "ip_addr \<Rightarrow> string" where
  "arpa_name (V4 ip) =
     join ''.'' (rev (map (\<lambda>o'. show_int 10 (uint o')) (octets ip))) @ ''.in-addr.arpa.''"
| "arpa_name (V6 ip) =
     join ''.'' (rev (map (\<lambda>d. [digit_char d]) (concat (map nibbles (groups ip))))) @ ''.ip6.arpa.''"

section \<open>Groups of exactly four digits\<close>

definition show_nibbles :: "u16 \<Rightarrow> string" where
  "show_nibbles g = map digit_char (nibbles g)"

lemma nibbles_bound: "d \<in> set (nibbles g) \<Longrightarrow> 0 \<le> d \<and> d < 16"
proof -
  have "uint g div 4096 \<le> 65535 div 4096" by (rule zdiv_mono1) simp_all
  then have "0 \<le> uint g div 4096 \<and> uint g div 4096 < 16" by (simp add: pos_imp_zdiv_nonneg_iff)
  then show "d \<in> set (nibbles g) \<Longrightarrow> ?thesis" by (auto simp: nibbles_def)
qed

lemma four_digits:
  fixes x :: int
  shows "x = 16 * a + m0 \<Longrightarrow> a = 16 * b + m1 \<Longrightarrow> b = 16 * c + m2 \<Longrightarrow>
    digits_value 16 [c, m2, m1, m0] = x"
  by simp

lemma nibbles_value: "digits_value 16 (nibbles g) = uint g"
  unfolding nibbles_def
proof (rule four_digits)
  have step: "n = 16 * (n div 16) + n mod 16" for n :: int by simp
  show "uint g = 16 * (uint g div 16) + uint g mod 16" by (rule step)
  have "uint g div 16 div 16 = uint g div 256" "uint g div 256 div 16 = uint g div 4096"
    by (simp_all add: zdiv_zmult2_eq [symmetric])
  with step [of "uint g div 16"] step [of "uint g div 256"]
  show "uint g div 16 = 16 * (uint g div 256) + uint g div 16 mod 16"
    "uint g div 256 = 16 * (uint g div 4096) + uint g div 256 mod 16" by metis+
qed

lemma read_nibbles: "stops 16 r \<Longrightarrow> read_group (show_nibbles g @ r) = Some (g, r)"
proof -
  assume r: "stops 16 r"
  have "take_digits 16 (show_nibbles g @ r) = (nibbles g, r)"
    unfolding show_nibbles_def using nibbles_bound r by (intro take_digits_printed) auto
  then show ?thesis
    by (simp add: read_group_def read_number_def nibbles_value) (simp add: nibbles_def)
qed

lemma hex_text_nibbles: "hex_text (show_nibbles g)"
  using nibbles_bound by (auto simp: hex_text_def show_nibbles_def)

interpretation padded: group_format show_nibbles
  by unfold_locales (simp_all add: hex_text_nibbles read_nibbles)

section \<open>Reading a name back\<close>

lemma dot_free_octet: "CHR ''.'' \<notin> set (show_int 10 (uint (a :: u8)))"
proof -
  have "to_digit 10 c \<noteq> None" if "c \<in> set (show_int 10 (uint a))" for c
    using that show_int_digits [of "uint a" c] by auto
  then show ?thesis using not_digits(1) by blast
qed

lemma dot_free_nibble: "d \<in> set (nibbles g) \<Longrightarrow> CHR ''.'' \<noteq> digit_char d"
proof -
  assume "d \<in> set (nibbles g)"
  then have "to_digit 16 (digit_char d) \<noteq> None" using nibbles_bound by simp
  then show ?thesis using not_digits(4) by metis
qed

lemma ptr_lookup_ipv4: "ptr_lookup_ip (arpa_name (V4 ip)) = Some (show_ipv4 ip)"
proof -
  let ?pieces = "map (\<lambda>o'. show_int 10 (uint o')) (octets ip)"
  have "split_char CHR ''.'' (join ''.'' (rev ?pieces)) = rev ?pieces"
    by (rule split_join) (cases ip, auto simp: dot_free_octet)
  moreover have "strip_suffix ''.in-addr.arpa.'' (arpa_name (V4 ip)) = Some (join ''.'' (rev ?pieces))"
    by (simp add: strip_suffix_Some_iff)
  moreover have "show_ipv4 ip = join ''.'' ?pieces" by (cases ip) simp
  ultimately show ?thesis by (simp add: ptr_lookup_ip_def del: join.simps arpa_name.simps)
qed

lemma push_nibbles_groups:
  "push_nibbles 0 (map (\<lambda>d. [digit_char d]) (concat (map nibbles (groups ip)))) =
     join '':'' (map show_nibbles (groups ip))"
  by (cases ip) (simp add: nibbles_def show_nibbles_def)

lemma ends_with_arpa: "\<not> ends_with (p @ ''.ip6.arpa.'') ''.in-addr.arpa.''"
proof
  assume "ends_with (p @ ''.ip6.arpa.'') ''.in-addr.arpa.''"
  then obtain q where "p @ ''.ip6.arpa.'' = q @ ''.in-addr.arpa.''" unfolding ends_with_iff by blast
  then have "rev (p @ ''.ip6.arpa.'') = rev (q @ ''.in-addr.arpa.'')" by (rule arg_cong)
  then show False by simp
qed

lemma ptr_lookup_ipv6: "ptr_lookup_ip (arpa_name (V6 ip)) = Some (join '':'' (map show_nibbles (groups ip)))"
proof -
  let ?pieces = "map (\<lambda>d. [digit_char d]) (concat (map nibbles (groups ip)))"
  have "?pieces \<noteq> []" by (cases ip) (simp add: nibbles_def)
  then have "split_char CHR ''.'' (join ''.'' (rev ?pieces)) = rev ?pieces"
    by (intro split_join) (auto dest: dot_free_nibble)
  moreover have "strip_suffix ''.ip6.arpa.'' (arpa_name (V6 ip)) = Some (join ''.'' (rev ?pieces))"
    "strip_suffix ''.in-addr.arpa.'' (arpa_name (V6 ip)) = None"
    unfolding strip_suffix_None_iff arpa_name.simps
    by (simp_all only: strip_suffix_Some_iff ends_with_arpa not_False_eq_True)
  ultimately show ?thesis
    by (simp add: ptr_lookup_ip_def push_nibbles_groups del: join.simps arpa_name.simps)
qed

lemma parse_ptr_lookup_ip:
  "\<exists>s. ptr_lookup_ip (arpa_name ip) = Some s \<and> parse_ip s = Some ip"
proof (cases ip)
  case (V4 a)
  with parse_show_ip [of "V4 a"] show ?thesis by (simp add: ptr_lookup_ipv4 del: arpa_name.simps)
next
  case (V6 a)
  then show ?thesis by (simp add: ptr_lookup_ipv6 padded.parse_all del: arpa_name.simps)
qed

end
