(* ===== verification/Backend_Props.thy ===== *)
theory Backend_Props
  imports Backend
begin

text \<open>
  Properties of \<open>src/backend/mod.rs\<close> that hold for every store: which spellings of a name
  are the same query, what the search domain becomes, and in which order the networks of a
  requester contribute.
\<close>

section \<open>The search domain\<close>

lemma backend_new_domain:
  "search_domain (backend_new c n r cd nd i domain) =
     (if domain \<noteq> [] \<and> last domain \<noteq> CHR ''.'' then domain @ ''.'' else domain)"
proof (cases domain rule: rev_cases)
  case Nil
  then show ?thesis by (simp add: backend_new_def)
next
  case (snoc d x)
  then show ?thesis by (simp add: backend_new_def Let_def)
qed

text \<open>The store completes the search domain by a final dot exactly when it is non-empty and
  has none; building a store from the completed domain changes nothing more.\<close>

theorem backend_new_search_domain:
  "search_domain (backend_new c n r cd nd i domain) \<in> {domain, domain @ ''.''} \<and>
   (domain \<noteq> [] \<longrightarrow> ends_with (search_domain (backend_new c n r cd nd i domain)) ''.'') \<and>
   backend_new c n r cd nd i (search_domain (backend_new c n r cd nd i domain)) =
     backend_new c n r cd nd i domain"
proof -
  have idem: "backend_new c n r cd nd i (domain @ ''.'') = backend_new c n r cd nd i domain"
    if "domain \<noteq> []" "last domain \<noteq> CHR ''.''"
    using that by (cases domain rule: rev_cases) (auto simp: backend_new_def)
  show ?thesis
    unfolding backend_new_domain by (auto simp: ends_with_char idem)
qed

theorem backend_new_search_domain_witness:
  "search_domain (backend_new Map.empty Map.empty Map.empty Map.empty Map.empty Map.empty ''.dns.podman'')
     = ''.dns.podman.'' \<and>
   ends_with (search_domain (backend_new Map.empty Map.empty Map.empty Map.empty Map.empty Map.empty
     ''.dns.podman'')) ''.''"
  using backend_new_search_domain [of Map.empty Map.empty Map.empty Map.empty Map.empty Map.empty
      "''.dns.podman''"]
  by (simp add: backend_new_domain)

section \<open>Spellings of a name\<close>

lemma lookup_name_cong:
  "to_lowercase uni q = to_lowercase uni q' \<Longrightarrow> lookup_name uni domain q = lookup_name uni domain q'"
  by (simp add: lookup_name_def)

text \<open>Lookups ignore the case of ASCII names: two queries that differ only in the case of
  letters get the same answer from every store, for every requester and network.\<close>

theorem lookup_ignores_case:
  assumes "is_ascii q" and "map ascii_lower q = map ascii_lower q'"
  shows "lookup uni be requester net q = lookup uni be requester net q'"
proof -
  have "is_ascii q'" using assms is_ascii_lower [of q] is_ascii_lower [of q'] by simp
  with assms have "to_lowercase uni q = to_lowercase uni q'" by (simp add: to_lowercase_def)
  then have "lookup_name uni (search_domain be) q = lookup_name uni (search_domain be) q'"
    by (rule lookup_name_cong)
  then show ?thesis by (simp add: lookup_def)
qed

definition web_store :: dns_backend where
  "web_store = backend_new Map.empty [''podman'' \<mapsto> [''web'' \<mapsto> [V4 (Ipv4 10 88 0 2)]]]
     Map.empty Map.empty Map.empty Map.empty ''.dns.podman''"

theorem lookup_ignores_case_witness:
  "lookup id web_store (V4 (Ipv4 10 88 0 9)) ''podman'' ''WEB.Dns.Podman.'' =
     Some [V4 (Ipv4 10 88 0 2)]"
proof -
  have "lookup id web_store (V4 (Ipv4 10 88 0 9)) ''podman'' ''WEB.Dns.Podman.'' =
      lookup id web_store (V4 (Ipv4 10 88 0 9)) ''podman'' ''web.dns.podman.''"
    by (rule lookup_ignores_case) code_simp+
  also have "\<dots> = Some [V4 (Ipv4 10 88 0 2)]" by code_simp
  finally show ?thesis .
qed

lemma lookup_name_strips:
  assumes "is_ascii name" "is_ascii domain" "map ascii_lower name = name" "map ascii_lower domain = domain"
    and "\<not> ends_with name ''.''"
  shows "lookup_name uni domain (name @ domain) = name"
proof -
  have "to_lowercase uni name = name" "to_lowercase uni domain = domain"
    using assms by (simp_all add: to_lowercase_def)
  with assms show ?thesis by (simp add: lookup_name_def to_lowercase_append Let_def)
qed

lemma lookup_name_short:
  assumes "is_ascii name" "map ascii_lower name = name"
    and "\<not> ends_with name ''.''" "\<not> ends_with name domain" "\<not> ends_with (name @ ''.'') domain"
  shows "lookup_name uni domain name = name" "lookup_name uni domain (name @ ''.'') = name"
proof -
  have lower: "to_lowercase uni name = name" using assms by (simp add: to_lowercase_def)
  have "is_ascii ''.''" "to_lowercase uni ''.'' = ''.''" by code_simp+
  then have "to_lowercase uni (name @ ''.'') = name @ ''.''"
    using lower assms by (simp add: to_lowercase_append)
  with lower assms drop_last_append [of "''.''" name]
  show "lookup_name uni domain name = name" "lookup_name uni domain (name @ ''.'') = name"
    by (simp_all add: lookup_name_def Let_def)
qed

text \<open>A container is found under its short name, under the short name with a final dot, and
  under the name completed by the search domain: the three queries get the same answer, when
  the search domain is in lower case.\<close>

theorem lookup_name_forms:
  assumes "is_ascii name" "map ascii_lower name = name" "\<not> ends_with name ''.''"
    and "is_ascii (search_domain be)" "map ascii_lower (search_domain be) = search_domain be"
    and "\<not> ends_with name (search_domain be)" "\<not> ends_with (name @ ''.'') (search_domain be)"
  shows "lookup uni be requester net (name @ search_domain be) = lookup uni be requester net name \<and>
    lookup uni be requester net (name @ ''.'') = lookup uni be requester net name"
proof -
  note names = lookup_name_strips [OF assms(1,4,2,5,3)] lookup_name_short [OF assms(1-3,6,7)]
  show ?thesis by (simp add: lookup_def names)
qed

theorem lookup_name_forms_witness:
  "lookup id web_store (V4 (Ipv4 10 88 0 9)) ''podman'' (''web'' @ search_domain web_store) =
     Some [V4 (Ipv4 10 88 0 2)] \<and>
   lookup id web_store (V4 (Ipv4 10 88 0 9)) ''podman'' ''web.'' = Some [V4 (Ipv4 10 88 0 2)]"
proof -
  have short: "lookup id web_store (V4 (Ipv4 10 88 0 9)) ''podman'' ''web'' = Some [V4 (Ipv4 10 88 0 2)]"
    by code_simp
  have "lookup id web_store (V4 (Ipv4 10 88 0 9)) ''podman'' (''web'' @ search_domain web_store) =
      lookup id web_store (V4 (Ipv4 10 88 0 9)) ''podman'' ''web'' \<and>
    lookup id web_store (V4 (Ipv4 10 88 0 9)) ''podman'' (''web'' @ ''.'') =
      lookup id web_store (V4 (Ipv4 10 88 0 9)) ''podman'' ''web''"
    by (rule lookup_name_forms) code_simp+
  with short show ?thesis by simp
qed

text \<open>C40: A search domain with an upper-case letter is never removed from an ASCII query: the
  query is lower-cased before the comparison and the domain is not, so a container is not
  found under its fully qualified name.\<close>

theorem uppercase_domain_not_stripped:
  assumes "is_ascii q" and "\<exists>c \<in> set (search_domain be). byte_in 65 90 c"
  shows "lookup_name uni (search_domain be) q =
    (let name = map ascii_lower q in if ends_with name ''.'' then drop_last 1 name else name)"
proof -
  have "\<not> ends_with (map ascii_lower q) (search_domain be)"
  proof
    assume "ends_with (map ascii_lower q) (search_domain be)"
    then obtain p where "map ascii_lower q = p @ search_domain be" unfolding ends_with_iff by blast
    then have "set (search_domain be) \<subseteq> ascii_lower ` set q"
      by (metis list.set_map set_append sup_ge2)
    with assms(2) obtain c where "byte_in 65 90 (ascii_lower c)" by blast
    then show False by (auto simp: byte_in_def byte_ascii_lower split: if_splits)
  qed
  then show ?thesis using assms(1) by (simp add: lookup_name_def to_lowercase_def Let_def)
qed

definition upper_store :: dns_backend where
  "upper_store = backend_new Map.empty [''podman'' \<mapsto> [''web'' \<mapsto> [V4 (Ipv4 10 88 0 2)]]]
     Map.empty Map.empty Map.empty Map.empty ''.DNS.podman''"

theorem uppercase_domain_not_stripped_witness:
  "lookup_name id (search_domain upper_store) ''web.DNS.podman.'' = ''web.dns.podman'' \<and>
   lookup id upper_store (V4 (Ipv4 10 88 0 9)) ''podman'' ''web.DNS.podman.'' = None"
proof -
  have "lookup_name id (search_domain upper_store) ''web.DNS.podman.'' =
      (let name = map ascii_lower ''web.DNS.podman.''
       in if ends_with name ''.'' then drop_last 1 name else name)"
    by (rule uppercase_domain_not_stripped) code_simp+
  also have "\<dots> = ''web.dns.podman''" by code_simp
  finally have name: "lookup_name id (search_domain upper_store) ''web.DNS.podman.'' = ''web.dns.podman''" .
  moreover have "lookup id upper_store (V4 (Ipv4 10 88 0 9)) ''podman'' ''web.DNS.podman.'' = None"
    unfolding lookup_def Let_def name by code_simp
  ultimately show ?thesis by simp
qed

section \<open>Order of the networks\<close>

text \<open>A reverse lookup answers from the first network of the requester that knows the
  address, in the order of the requester's networks; a later network never overrides it.\<close>

theorem reverse_lookup_first_network:
  "reverse_lookup be requester ip = Some names \<longleftrightarrow>
     (\<exists>nets pre net post. ip_mappings be requester = Some nets \<and> nets = pre @ net # post \<and>
        nested_get (reverse_mappings be) (net, ip) = Some names \<and>
        list_all (\<lambda>n. nested_get (reverse_mappings be) (n, ip) = None) pre)"
  by (simp add: reverse_lookup_def first_reverse_Some_iff list_all_iff split: option.split)

end
