(* ===== verification/Dns_Props.thy ===== *)
theory Dns_Props
  imports Ptr_Names Backend_Props
begin

text \<open>
  What \<open>process_message\<close> promises: which queries are answered from the store and with which
  records, which are refused, which leave for an upstream server and for which one.  All
  statements hold for every codec that satisfies \<open>hickory_ok\<close>.
\<close>

section \<open>The two local answers\<close>

lemma fold_optional_answers:
  assumes "hickory_ok H"
  shows "fold (\<lambda>x m. case f x of Some r \<Rightarrow> add_answer H r m | None \<Rightarrow> m) xs m =
     m\<lparr>answers := answers m @ List.map_filter f xs\<rparr>"
proof (induction xs arbitrary: m)
  case Nil
  then show ?case by (simp add: map_filter_simps)
next
  case (Cons x xs)
  then show ?case
    by (cases "f x") (simp_all add: map_filter_simps hickory_add_answer [OF assms])
qed

lemma reply_ptr_answers:
  assumes "hickory_ok H"
  shows "reply_ptr H name be src req = Some m \<longleftrightarrow>
    (\<exists>s ip names. ptr_lookup_ip name = Some s \<and> parse_ip s = Some ip \<and>
       reverse_lookup be (socket_ip src) ip = Some names \<and>
       m = req\<lparr>answers := answers req @ List.map_filter (ptr_answer H name) names\<rparr>)"
  unfolding reply_ptr_def fold_optional_answers [OF assms] by (auto split: option.splits)

lemma reply_ip_answers:
  assumes "hickory_ok H"
  shows "reply_ip H uni name n net rt be src req =
    map_option (\<lambda>addrs. req\<lparr>answers := answers req @
        map (from_rdata H n 0) (List.map_filter (address_data rt) addrs)\<rparr>)
      (lookup uni be (socket_ip src) net name)"
proof -
  have body: "(\<lambda>a m. case address_data rt a of Some d \<Rightarrow> add_answer H (from_rdata H n 0 d) m
        | None \<Rightarrow> m) =
      (\<lambda>a m. case map_option (from_rdata H n 0) (address_data rt a) of
         Some r \<Rightarrow> add_answer H r m | None \<Rightarrow> m)"
    by (auto simp: fun_eq_iff split: option.splits)
  have "List.map_filter (\<lambda>a. map_option (from_rdata H n 0) (address_data rt a)) addrs =
      map (from_rdata H n 0) (List.map_filter (address_data rt) addrs)" for addrs
    by (induction addrs) (auto simp: map_filter_simps split: option.split)
  then show ?thesis
    unfolding reply_ip_def body fold_optional_answers [OF assms] by (simp split: option.split)
qed

definition address_type :: "record_type \<Rightarrow> bool" where
  "address_type rt \<longleftrightarrow> rt = RT_A \<or> rt = RT_AAAA"

lemma local_answer_address:
  "address_type rt \<Longrightarrow> local_answer H uni data src n rt req =
     reply_ip H uni (name_to_string H n) n (network_name data) rt (backend data) src req"
  by (auto simp: address_type_def local_answer_def Let_def)

text \<open>An address query for a name the store has is answered from the store, whatever
  forwarding would do: the reply repeats identifier and question, adds one record of TTL 0 per
  address of the requested family, none for the other family (so the answer may be empty but
  the query never leaves the server), keeps the response code of the request, and says that
  recursion is available when it was desired.\<close>

theorem address_query_answered:
  assumes "hickory_ok H" and "parse_dns_msg H (bytes, src) = Some (n, rt, req)" and "address_type rt"
    and "lookup uni (backend data) (socket_ip src) (network_name data) (name_to_string H n) = Some addrs"
  shows "\<exists>m. process_message H uni data (bytes, src) proto = Replied (reply H src m) \<and>
    answers (reply_message H m) =
      answers req @ map (from_rdata H n 0) (List.map_filter (address_data rt) addrs) \<and>
    msg_id (reply_message H m) = msg_id req \<and> queries (reply_message H m) = queries req \<and>
    response_code (reply_message H m) = response_code req \<and>
    recursion_available (reply_message H m) = (recursion_available req \<or> recursion_desired req)"
proof (intro exI conjI)
  let ?m = "req\<lparr>answers := answers req @
    map (from_rdata H n 0) (List.map_filter (address_data rt) addrs)\<rparr>"
  have "local_answer H uni data src n rt req = Some ?m"
    using assms by (simp add: local_answer_address reply_ip_answers)
  then show "process_message H uni data (bytes, src) proto = Replied (reply H src ?m)"
    using assms(2) by (simp add: process_message_def)
qed (use assms(1) in simp_all)

definition query_bytes :: "char \<Rightarrow> string \<Rightarrow> string" where
  "query_bytes t name = [CHR 0x01, CHR 0x02, CHR 0x01, t] @ name"

definition web_data :: core_dns_data where
  "web_data = \<lparr>network_name = ''podman'', backend = web_store, no_proxy = False,
     nameservers = [Sock4 (Ipv4 1 1 1 1) 53]\<rparr>"

abbreviation web_client :: socket_addr where
  "web_client \<equiv> Sock4 (Ipv4 10 88 0 9) 4000"

theorem address_query_answered_witness:
  "process_message wire id web_data (query_bytes CHR 0x01 ''Web.dns.podman.'', web_client) Udp =
     Replied (Some (''ok Web.dns.podman.=10.88.0.2'', web_client)) \<and>
   (\<exists>m. process_message wire id web_data (query_bytes CHR 0x1C ''web.'', web_client) Udp =
       Replied (reply wire web_client m) \<and> answers (reply_message wire m) = [])"
proof
  show "process_message wire id web_data (query_bytes CHR 0x01 ''Web.dns.podman.'', web_client) Udp =
     Replied (Some (''ok Web.dns.podman.=10.88.0.2'', web_client))"
    by code_simp
  let ?req = "the (from_vec wire (query_bytes CHR 0x1C ''web.''))"
  have "parse_dns_msg wire (query_bytes CHR 0x1C ''web.'', web_client) = Some (''web.'', RT_AAAA, ?req)"
    "lookup id (backend web_data) (socket_ip web_client) (network_name web_data)
       (name_to_string wire ''web.'') = Some [V4 (Ipv4 10 88 0 2)]"
    "answers ?req @ map (from_rdata wire ''web.'' 0)
       (List.map_filter (address_data RT_AAAA) [V4 (Ipv4 10 88 0 2)]) = []"
    by code_simp+
  with address_query_answered [OF wire_ok this(1) _ this(2), of Udp]
  show "\<exists>m. process_message wire id web_data (query_bytes CHR 0x1C ''web.'', web_client) Udp =
       Replied (reply wire web_client m) \<and> answers (reply_message wire m) = []"
    by (auto simp: address_type_def)
qed

text \<open>C21: A reverse query for an address the requester's networks know is answered with one PTR
  record per name of the address: the text form of every IPv4 and IPv6 address under
  \<open>in-addr.arpa\<close> and \<open>ip6.arpa\<close> is understood.\<close>

theorem ptr_query_answered:
  assumes "hickory_ok H" and "parse_dns_msg H (bytes, src) = Some (n, RT_PTR, req)"
    and "name_to_string H n = arpa_name ip"
    and "reverse_lookup (backend data) (socket_ip src) ip = Some names"
  shows "\<exists>m. process_message H uni data (bytes, src) proto = Replied (reply H src m) \<and>
    answers (reply_message H m) =
      answers req @ List.map_filter (ptr_answer H (arpa_name ip)) names \<and>
    msg_id (reply_message H m) = msg_id req \<and> queries (reply_message H m) = queries req"
proof -
  obtain s where "ptr_lookup_ip (arpa_name ip) = Some s" "parse_ip s = Some ip"
    using parse_ptr_lookup_ip by blast
  then have "reply_ptr H (arpa_name ip) (backend data) src req =
      Some (req\<lparr>answers := answers req @ List.map_filter (ptr_answer H (arpa_name ip)) names\<rparr>)"
    using assms(4) unfolding reply_ptr_answers [OF assms(1)] by auto
  with assms have "process_message H uni data (bytes, src) proto = Replied (reply H src
      (req\<lparr>answers := answers req @ List.map_filter (ptr_answer H (arpa_name ip)) names\<rparr>))"
    by (simp add: process_message_def local_answer_def del: arpa_name.simps)
  with assms(1) show ?thesis by (intro exI conjI) (assumption | simp)+
qed

definition ptr_store :: dns_backend where
  "ptr_store = backend_new [V6 (Ipv6 0xfd00 0 0 0 0 0 0 2) \<mapsto> [''podman'']] Map.empty
     [''podman'' \<mapsto> [V6 (Ipv6 0xfd00 0 0 0 0 0 0 3) \<mapsto> [''web'', ''www'']]]
     Map.empty Map.empty Map.empty ''.dns.podman''"

theorem ptr_query_answered_witness:
  "\<exists>m. process_message wire id (web_data\<lparr>backend := ptr_store\<rparr>)
       (query_bytes CHR 0x0C (arpa_name (V6 (Ipv6 0xfd00 0 0 0 0 0 0 3))),
        Sock6 (Ipv6 0xfd00 0 0 0 0 0 0 2) 4000 0 0) Udp =
      Replied (reply wire (Sock6 (Ipv6 0xfd00 0 0 0 0 0 0 2) 4000 0 0) m) \<and>
    length (answers (reply_message wire m)) = 2"
proof -
  let ?ip = "V6 (Ipv6 0xfd00 0 0 0 0 0 0 3)" and ?src = "Sock6 (Ipv6 0xfd00 0 0 0 0 0 0 2) 4000 0 0"
  let ?bytes = "query_bytes CHR 0x0C (arpa_name ?ip)"
  let ?req = "the (from_vec wire ?bytes)"
  have 1: "parse_dns_msg wire (?bytes, ?src) = Some (arpa_name ?ip, RT_PTR, ?req)"
    "name_to_string wire (arpa_name ?ip) = arpa_name ?ip"
    "reverse_lookup (backend (web_data\<lparr>backend := ptr_store\<rparr>)) (socket_ip ?src) ?ip =
       Some [''web'', ''www'']"
    by code_simp+
  have "length (answers ?req @ List.map_filter (ptr_answer wire (arpa_name ?ip)) [''web'', ''www'']) = 2"
    by code_simp
  with ptr_query_answered [OF wire_ok 1, of id Udp] show ?thesis by (auto simp del: arpa_name.simps)
qed

section \<open>What leaves the server\<close>

lemma forwarded_iff:
  "process_message H uni data (bytes, src) proto = Forwarded ns dst m p \<longleftrightarrow>
     (\<exists>n rt. parse_dns_msg H (bytes, src) = Some (n, rt, m) \<and>
        local_answer H uni data src n rt m = None \<and>
        may_forward data (socket_ip src) (name_to_string H n) \<and>
        ns = upstream_servers data (socket_ip src) \<and> dst = src \<and> p = proto)"
  by (auto simp: process_message_def split: option.splits prod.splits)

lemma local_answer_id:
  "hickory_ok H \<Longrightarrow> local_answer H uni data src n rt req = Some m \<Longrightarrow> msg_id m = msg_id req"
  by (auto simp: local_answer_def Let_def reply_ptr_answers reply_ip_answers split: record_type.splits)

text \<open>Every reply of \<open>process_message\<close> goes to the requester and repeats its identifier.\<close>

lemma replied_request:
  assumes "hickory_ok H" and "process_message H uni data (bytes, src) proto = Replied (Some (answer, dst))"
  shows "dst = src \<and> (\<exists>req m. from_vec H bytes = Some req \<and>
    to_vec H (reply_message H m) = Some answer \<and> msg_id (reply_message H m) = msg_id req)"
proof -
  obtain n rt req where parsed: "parse_dns_msg H (bytes, src) = Some (n, rt, req)"
    using assms(2) by (auto simp: process_message_def split: option.splits)
  then have req: "from_vec H bytes = Some req"
    by (auto simp: parse_dns_msg_def split: option.splits list.splits)
  have reply: "dst = src \<and> to_vec H (reply_message H m) = Some answer"
    if "reply H src m = Some (answer, dst)" for m
    using that by (auto simp: reply_def split: option.splits)
  show ?thesis
  proof (cases "local_answer H uni data src n rt req")
    case None
    with assms(2) parsed have
      "reply H src ((into_response H req)\<lparr>response_code := NXDomain\<rparr>) = Some (answer, dst)"
      by (simp add: process_message_def split: if_splits)
    from reply [OF this] req assms(1) show ?thesis by fastforce
  next
    case (Some m)
    with assms(2) parsed have "reply H src m = Some (answer, dst)" by (simp add: process_message_def)
    from reply [OF this] req local_answer_id [OF assms(1) Some] assms(1) show ?thesis by fastforce
  qed
qed

text \<open>C22: A query that may not be forwarded never is: when forwarding is disabled, when the
  requester is only in internal networks, or when the name is in the search domain, the
  message is ignored or answered by the server itself, and a query the store has no answer for
  gets NXDOMAIN with no record added.\<close>

theorem blocked_query_stays_local:
  assumes "hickory_ok H" and "parse_dns_msg H (bytes, src) = Some (n, rt, req)"
    and "no_proxy data \<or> ctr_is_internal (backend data) (socket_ip src) \<or>
      ends_with (name_to_string H n) (search_domain (backend data))"
  shows "\<exists>m. process_message H uni data (bytes, src) proto = Replied (reply H src m) \<and>
    msg_id (reply_message H m) = msg_id req \<and>
    (local_answer H uni data src n rt req = None \<longrightarrow>
       response_code (reply_message H m) = NXDomain \<and> answers (reply_message H m) = answers req)"
proof (cases "local_answer H uni data src n rt req")
  case None
  with assms have "process_message H uni data (bytes, src) proto =
      Replied (reply H src ((into_response H req)\<lparr>response_code := NXDomain\<rparr>))"
    by (simp add: process_message_def may_forward_def)
  with assms(1) show ?thesis by (intro exI conjI) (assumption | simp)+
next
  case (Some m)
  then have "process_message H uni data (bytes, src) proto = Replied (reply H src m)"
    using assms(2) by (simp add: process_message_def)
  moreover have "msg_id m = msg_id req" by (rule local_answer_id [OF assms(1) Some])
  ultimately show ?thesis using Some assms(1) by (intro exI [of _ m]) simp
qed

theorem blocked_query_stays_local_witness:
  "process_message wire id web_data (query_bytes CHR 0x01 ''db.dns.podman.'', web_client) Udp =
     Replied (Some (''nx'', web_client)) \<and>
   (\<exists>m. process_message wire id (web_data\<lparr>no_proxy := True\<rparr>)
       (query_bytes CHR 0x0F ''example.org.'', web_client) Udp = Replied (reply wire web_client m) \<and>
     response_code (reply_message wire m) = NXDomain)"
proof
  show "process_message wire id web_data (query_bytes CHR 0x01 ''db.dns.podman.'', web_client) Udp =
     Replied (Some (''nx'', web_client))" by code_simp
  let ?bytes = "query_bytes CHR 0x0F ''example.org.''" and ?data = "web_data\<lparr>no_proxy := True\<rparr>"
  have "parse_dns_msg wire (?bytes, web_client) =
      Some (''example.org.'', RT_Other 15, the (from_vec wire ?bytes))"
    "no_proxy ?data"
    "local_answer wire id ?data web_client ''example.org.'' (RT_Other 15) (the (from_vec wire ?bytes)) = None"
    by code_simp+
  then show "\<exists>m. process_message wire id ?data (?bytes, web_client) Udp = Replied (reply wire web_client m) \<and>
     response_code (reply_message wire m) = NXDomain"
    using blocked_query_stays_local [OF wire_ok, of ?bytes web_client "''example.org.''" "RT_Other 15"
        "the (from_vec wire ?bytes)" ?data id Udp] by blast
qed

text \<open>Where a forwarded query goes: to the DNS servers of the requesting container when it
  has its own, else to the servers of its networks, else to the servers of the host; never to
  a mixture, in the configured order and on port 53, and unchanged.\<close>

theorem forwarded_to_configured_servers:
  assumes "process_message H uni data (bytes, src) proto = Forwarded ns dst m p"
  shows "from_vec H bytes = Some m \<and> dst = src \<and> p = proto \<and>
    ns = (let be = backend data; ip = socket_ip src;
              own = (case ctr_dns_server be ip of Some (Some ds) \<Rightarrow> ds
                     | _ \<Rightarrow> or_default (get_network_scoped_resolvers be ip))
          in if own = [] then nameservers data else map (\<lambda>a. socket_new a 53) own)"
proof -
  have "from_vec H bytes = Some m"
    using assms unfolding forwarded_iff parse_dns_msg_def by (auto split: option.splits list.splits)
  moreover have "ns = upstream_servers data (socket_ip src)" "dst = src" "p = proto"
    using assms unfolding forwarded_iff by blast+
  ultimately show ?thesis
    by (auto simp: upstream_servers_def custom_resolvers_def Let_def or_default_def DNS_PORT_def
        split: option.splits)
qed

definition custom_store :: dns_backend where
  "custom_store = backend_new [V4 (Ipv4 10 88 0 9) \<mapsto> [''podman'']] Map.empty Map.empty
     [V4 (Ipv4 10 88 0 9) \<mapsto> Some [V4 (Ipv4 8 8 8 8)]] [''podman'' \<mapsto> [V4 (Ipv4 9 9 9 9)]]
     [''podman'' \<mapsto> False] ''.dns.podman''"

theorem forwarded_to_configured_servers_witness:
  "\<exists>m. process_message wire id (web_data\<lparr>backend := custom_store\<rparr>)
       (query_bytes CHR 0x01 ''example.org.'', web_client) Udp =
     Forwarded [Sock4 (Ipv4 8 8 8 8) 53] web_client m Udp \<and>
     wire_decode (query_bytes CHR 0x01 ''example.org.'') = Some m"
proof -
  let ?bytes = "query_bytes CHR 0x01 ''example.org.''" and ?data = "web_data\<lparr>backend := custom_store\<rparr>"
  have "(case process_message wire id ?data (?bytes, web_client) Udp of
      Forwarded _ _ _ _ \<Rightarrow> True | _ \<Rightarrow> False)" by code_simp
  then obtain ns dst m p where
    fw: "process_message wire id ?data (?bytes, web_client) Udp = Forwarded ns dst m p"
    by (auto split: outcome.splits)
  have own: "ctr_dns_server (backend ?data) (socket_ip web_client) = Some (Some [V4 (Ipv4 8 8 8 8)])"
    by code_simp
  from forwarded_to_configured_servers [OF fw] own
  have "ns = [Sock4 (Ipv4 8 8 8 8) 53]" "dst = web_client" "p = Udp" "from_vec wire ?bytes = Some m"
    by (simp_all add: Let_def)
  with fw show ?thesis by (simp add: wire_def)
qed

text \<open>An empty search domain disables forwarding altogether: every name ends with the empty
  text, so every query the store has no answer for gets NXDOMAIN.\<close>

theorem empty_search_domain_never_forwards:
  "process_message H uni (data\<lparr>backend := backend_new c n r cd nd i []\<rparr>) (bytes, src) proto \<noteq>
     Forwarded ns dst m p"
  unfolding forwarded_iff may_forward_def by (simp add: backend_new_domain)



end
