(* ===== verification/Forwarding.thy ===== *)
theory Forwarding
  imports Core_Dns
begin

text \<open>
  \<open>forward_to_servers\<close> and \<open>forward_dns_req\<close> of \<open>src/dns/coredns.rs\<close>: the upstream servers are
  asked one after the other until one gives an answer that can be sent back.  The network is
  two arguments: whether a TCP connection to a server comes up, and what asking a server yields.
  The result is the sequence of the actions of the task, with the time each may wait.
\<close>

section \<open>Asking the servers\<close>

datatype 'm upstream = Response 'm | Empty_Response | Request_Failed

datatype 'm forward_event =
    Connecting socket_addr nat
  | Asking socket_addr 'm nat
  | Sending serial_message
  | Aborting socket_addr

text \<open>The answer of a server, under the identifier of the request.\<close>

definition forward_dns_req ::
  "(socket_addr \<Rightarrow> ('n, 'r, 'x) message \<Rightarrow> ('n, 'r, 'x) message upstream) \<Rightarrow> socket_addr \<Rightarrow>
   ('n, 'r, 'x) message \<Rightarrow> ('n, 'r, 'x) message option" where
  "forward_dns_req exchange addr message =
     (let id' = msg_id message
      in case exchange addr message of
           Response response \<Rightarrow> Some (response\<lparr>msg_id := id'\<rparr>)
         | Empty_Response \<Rightarrow> None
         | Request_Failed \<Rightarrow> None)"

text \<open>The loop; \<open>timeout\<close> is in nanoseconds.\<close>

fun forward_loop ::
  "('n, 'r, 'x) hickory \<Rightarrow> (socket_addr \<Rightarrow> bool) \<Rightarrow>
   (socket_addr \<Rightarrow> ('n, 'r, 'x) message \<Rightarrow> ('n, 'r, 'x) message upstream) \<Rightarrow> nat \<Rightarrow> protocol \<Rightarrow>
   socket_addr \<Rightarrow> ('n, 'r, 'x) message \<Rightarrow> socket_addr list \<Rightarrow>
   ('n, 'r, 'x) message forward_event list"
where
  "forward_loop H connects exchange timeout proto src_address req [] = []"
| "forward_loop H connects exchange timeout proto src_address req (addr # addrs) =
     (let rest = forward_loop H connects exchange timeout proto src_address req addrs;
          ask = Asking addr req timeout #
            (case forward_dns_req exchange addr req of
               Some resp \<Rightarrow>
                 (case reply H src_address resp of
                    Some serial \<Rightarrow> [Sending serial]
                  | None \<Rightarrow> Aborting addr # rest)
             | None \<Rightarrow> Aborting addr # rest)
      in case proto of
           Udp \<Rightarrow> ask
         | Tcp \<Rightarrow> Connecting addr timeout # (if connects addr then ask else rest))"

definition DEFAULT_TIMEOUT :: nat where
  "DEFAULT_TIMEOUT = 5 * 10 ^ 9"

text \<open>\<open>Duration::from_secs(5) / len as u32\<close>: the division panics (\<open>None\<close>) when the truncated
  length is zero.\<close>

definition server_timeout :: "nat \<Rightarrow> nat option" where
  "server_timeout len =
     (if len = 0 then Some DEFAULT_TIMEOUT
      else if len mod 2 ^ 32 = 0 then None
      else Some (5 * 10 ^ 9 div (len mod 2 ^ 32)))"

definition forward_to_servers ::
  "('n, 'r, 'x) hickory \<Rightarrow> (socket_addr \<Rightarrow> bool) \<Rightarrow>
   (socket_addr \<Rightarrow> ('n, 'r, 'x) message \<Rightarrow> ('n, 'r, 'x) message upstream) \<Rightarrow>
   socket_addr list \<Rightarrow> socket_addr \<Rightarrow> ('n, 'r, 'x) message \<Rightarrow> protocol \<Rightarrow>
   ('n, 'r, 'x) message forward_event list option" where
  "forward_to_servers H connects exchange servers src_address req proto =
     map_option (\<lambda>timeout. forward_loop H connects exchange timeout proto src_address req servers)
       (server_timeout (length servers))"

section \<open>What a server contributes\<close>

definition server_reply ::
  "('n, 'r, 'x) hickory \<Rightarrow> (socket_addr \<Rightarrow> bool) \<Rightarrow>
   (socket_addr \<Rightarrow> ('n, 'r, 'x) message \<Rightarrow> ('n, 'r, 'x) message upstream) \<Rightarrow> protocol \<Rightarrow>
   socket_addr \<Rightarrow> ('n, 'r, 'x) message \<Rightarrow> socket_addr \<Rightarrow> serial_message option" where
  "server_reply H connects exchange proto src req addr =
     (if proto = Tcp \<and> \<not> connects addr then None
      else Option.bind (forward_dns_req exchange addr req) (reply H src))"

fun sent :: "'m forward_event list \<Rightarrow> serial_message list" where
  "sent [] = []"
| "sent (Sending s # evs) = s # sent evs"
| "sent (_ # evs) = sent evs"

fun asked :: "'m forward_event list \<Rightarrow> socket_addr list" where
  "asked [] = []"
| "asked (Asking a m t # evs) = a # asked evs"
| "asked (_ # evs) = asked evs"

fun waits :: "'m forward_event list \<Rightarrow> nat" where
  "waits [] = 0"
| "waits (Connecting a t # evs) = t + waits evs"
| "waits (Asking a m t # evs) = t + waits evs"
| "waits (_ # evs) = waits evs"

lemma sent_Cons: "sent (e # evs) = (case e of Sending s \<Rightarrow> s # sent evs | _ \<Rightarrow> sent evs)"
  by (cases e) auto

lemma asked_Cons: "asked (e # evs) = (case e of Asking a m t \<Rightarrow> a # asked evs | _ \<Rightarrow> asked evs)"
  by (cases e) auto

lemma forward_loop_none:
  assumes "server_reply H connects exchange proto src req addr = None"
  shows "sent (forward_loop H connects exchange t proto src req (addr # addrs)) =
      sent (forward_loop H connects exchange t proto src req addrs)"
    and "asked (forward_loop H connects exchange t proto src req (addr # addrs)) =
      (if proto = Tcp \<and> \<not> connects addr then [] else [addr]) @
      asked (forward_loop H connects exchange t proto src req addrs)"
  using assms
  by (auto simp: server_reply_def Let_def split: protocol.splits option.splits if_splits bind_splits)

lemma forward_loop_some:
  assumes "server_reply H connects exchange proto src req addr = Some s"
  shows "sent (forward_loop H connects exchange t proto src req (addr # addrs)) = [s]"
    and "asked (forward_loop H connects exchange t proto src req (addr # addrs)) = [addr]"
  using assms
  by (auto simp: server_reply_def Let_def split: protocol.splits option.splits if_splits bind_splits)

lemma forward_loop_waits:
  "waits (forward_loop H connects exchange t proto src req addrs) \<le>
     (case proto of Udp \<Rightarrow> 1 | Tcp \<Rightarrow> 2) * (length addrs * t)"
  by (induction addrs) (auto simp: Let_def split: protocol.split option.split)

text \<open>C17: The servers are tried in order and the first usable answer wins: if a server is the
  first one that connects and gives an answer that can be encoded, exactly its answer is sent,
  to the requester, and no later server is asked; if there is none, nothing is sent.\<close>

theorem first_answer_wins:
  assumes "forward_to_servers H connects exchange servers src req proto = Some evs"
  shows "(list_all (\<lambda>a. server_reply H connects exchange proto src req a = None) servers \<longrightarrow>
      sent evs = []) \<and>
    (servers = pre @ addr # post \<and>
       list_all (\<lambda>a. server_reply H connects exchange proto src req a = None) pre \<and>
       server_reply H connects exchange proto src req addr = Some s \<longrightarrow>
     sent evs = [s] \<and>
     asked evs = filter (\<lambda>a. proto = Udp \<or> connects a) pre @ [addr])"
proof -
  obtain t where evs: "evs = forward_loop H connects exchange t proto src req servers"
    using assms by (auto simp: forward_to_servers_def)
  have none: "sent (forward_loop H connects exchange t proto src req as') = []"
    if "list_all (\<lambda>a. server_reply H connects exchange proto src req a = None) as'" for as'
    using that by (induction as') (simp_all add: forward_loop_none(1) del: forward_loop.simps(2))
  have some: "sent (forward_loop H connects exchange t proto src req (pre' @ addr # post)) = [s] \<and>
      asked (forward_loop H connects exchange t proto src req (pre' @ addr # post)) =
        filter (\<lambda>a. proto = Udp \<or> connects a) pre' @ [addr]"
    if "list_all (\<lambda>a. server_reply H connects exchange proto src req a = None) pre'"
      and s: "server_reply H connects exchange proto src req addr = Some s" for pre'
    using that(1)
  proof (induction pre')
    case Nil
    with forward_loop_some [OF s] show ?case by simp
  next
    case (Cons a pre')
    then show ?case
      by (cases proto) (simp_all add: forward_loop_none del: forward_loop.simps(2))
  qed
  from none [of servers] some [of pre] show ?thesis unfolding evs by blast
qed

definition sample_request :: "(string, wire_record, unit) message" where
  "sample_request = \<lparr>msg_id = 7, recursion_desired = True, recursion_available = False,
     response_code = NoError,
     queries = [\<lparr>query_name = ''example.org.'', query_type = RT_A, query_class = 1\<rparr>],
     answers = [], msg_rest = ()\<rparr>"

text \<open>An upstream that fails for the first server and answers with another identifier.\<close>

definition sample_upstream ::
  "socket_addr \<Rightarrow> (string, wire_record, unit) message \<Rightarrow> (string, wire_record, unit) message upstream" where
  "sample_upstream addr m =
     (if addr = Sock4 (Ipv4 1 1 1 1) 53 then Request_Failed
      else Response (m\<lparr>msg_id := 9, answers := [(''example.org.'', 60, RData_A (Ipv4 9 9 9 9))]\<rparr>))"

definition sample_servers :: "socket_addr list" where
  "sample_servers = [Sock4 (Ipv4 1 1 1 1) 53, Sock4 (Ipv4 1 1 1 2) 53, Sock4 (Ipv4 1 1 1 3) 53]"

abbreviation sample_client :: socket_addr where
  "sample_client \<equiv> Sock4 (Ipv4 10 88 0 9) 4000"

lemma sample_replies:
  "server_reply wire (\<lambda>_. True) sample_upstream Udp sample_client sample_request
     (Sock4 (Ipv4 1 1 1 1) 53) = None"
  "server_reply wire (\<lambda>_. True) sample_upstream Udp sample_client sample_request
     (Sock4 (Ipv4 1 1 1 2) 53) = Some (''ok example.org.=9.9.9.9'', sample_client)"
  by code_simp+

lemma sample_forward:
  "\<exists>evs. forward_to_servers wire (\<lambda>_. True) sample_upstream sample_servers sample_client
     sample_request Udp = Some evs \<and> sent evs = [(''ok example.org.=9.9.9.9'', sample_client)]"
  by (simp add: forward_to_servers_def server_timeout_def sample_servers_def
      forward_loop_none(1) [OF sample_replies(1)] forward_loop_some(1) [OF sample_replies(2)]
      del: forward_loop.simps(2))

theorem first_answer_wins_witness:
  "\<exists>evs. forward_to_servers wire (\<lambda>_. True) sample_upstream sample_servers sample_client
       sample_request Udp = Some evs \<and>
     sent evs = [(''ok example.org.=9.9.9.9'', sample_client)] \<and>
     asked evs = [Sock4 (Ipv4 1 1 1 1) 53, Sock4 (Ipv4 1 1 1 2) 53]"
proof -
  obtain evs where evs: "forward_to_servers wire (\<lambda>_. True) sample_upstream sample_servers
      sample_client sample_request Udp = Some evs"
    using sample_forward by blast
  from first_answer_wins [OF evs, of "[Sock4 (Ipv4 1 1 1 1) 53]" "Sock4 (Ipv4 1 1 1 2) 53"
      "[Sock4 (Ipv4 1 1 1 3) 53]" "(''ok example.org.=9.9.9.9'', sample_client)"] evs
  show ?thesis by (simp add: sample_servers_def sample_replies)
qed

text \<open>What a forwarding task may do: everything concerns a server of the list, and what it sends is
  the answer of one of them.\<close>


lemma set_sent: "s \<in> set (sent evs) \<longleftrightarrow> Sending s \<in> set evs"
  by (induction evs rule: sent.induct) auto

lemma sent_append: "sent (evs @ evs') = sent evs @ sent evs'"
  by (induction evs rule: sent.induct) auto

lemma forward_loop_events:
  assumes "ev \<in> set (forward_loop H connects exchange t proto src req addrs)"
  shows "case ev of
      Connecting a t' \<Rightarrow> a \<in> set addrs
    | Asking a m t' \<Rightarrow> a \<in> set addrs \<and> m = req
    | Sending s \<Rightarrow> (\<exists>a \<in> set addrs. server_reply H connects exchange proto src req a = Some s)
    | Aborting a \<Rightarrow> a \<in> set addrs"
  using assms
proof (induction addrs)
  case Nil
  then show ?case by simp
next
  case (Cons a addrs)
  then show ?case
    by (cases ev) (auto simp: server_reply_def Let_def split: protocol.splits option.splits if_splits)
qed

lemma forward_loop_sends_once:
  "length (sent (forward_loop H connects exchange t proto src req addrs)) \<le> 1"
proof (induction addrs)
  case (Cons a addrs)
  then show ?case
    by (cases "server_reply H connects exchange proto src req a")
      (simp_all add: forward_loop_none(1) forward_loop_some(1) del: forward_loop.simps(2))
qed simp

lemma server_reply_dst: "server_reply H connects exchange proto src req addr = Some s \<Longrightarrow> snd s = src"
  by (cases "forward_dns_req exchange addr req")
    (auto simp: server_reply_def reply_def split: if_splits option.splits)

lemma server_reply_response:
  assumes "hickory_ok H" and "server_reply H connects exchange proto src req addr = Some (bytes, dst)"
  shows "dst = src \<and> (\<exists>m. exchange addr req = Response m \<and>
    to_vec H (reply_message H (m\<lparr>msg_id := msg_id req\<rparr>)) = Some bytes \<and>
    msg_id (reply_message H (m\<lparr>msg_id := msg_id req\<rparr>)) = msg_id req)"
proof -
  from assms(2) obtain resp where resp: "forward_dns_req exchange addr req = Some resp"
    "reply H src resp = Some (bytes, dst)"
    by (auto simp: server_reply_def split: if_splits bind_splits)
  then obtain m where "exchange addr req = Response m" "resp = m\<lparr>msg_id := msg_id req\<rparr>"
    by (auto simp: forward_dns_req_def Let_def split: upstream.splits)
  with resp(2) assms(1) show ?thesis by (auto simp: reply_def split: option.splits)
qed

text \<open>C18: An answer is sent back under the identifier of the request and only to the requester,
  whatever identifier the upstream server used.\<close>

theorem forwarded_answer_matches_request:
  assumes "hickory_ok H"
    and "forward_to_servers H connects exchange servers src req proto = Some evs"
    and "(bytes, dst) \<in> set (sent evs)"
  shows "dst = src \<and> (\<exists>m addr. addr \<in> set servers \<and> exchange addr req = Response m \<and>
    to_vec H (reply_message H (m\<lparr>msg_id := msg_id req\<rparr>)) = Some bytes \<and>
    msg_id (reply_message H (m\<lparr>msg_id := msg_id req\<rparr>)) = msg_id req)"
proof -
  obtain t where evs: "evs = forward_loop H connects exchange t proto src req servers"
    using assms(2) by (auto simp: forward_to_servers_def)
  from assms(3) have "Sending (bytes, dst) \<in> set (forward_loop H connects exchange t proto src req servers)"
    by (simp add: set_sent evs)
  from forward_loop_events [OF this] obtain addr where "addr \<in> set servers"
    "server_reply H connects exchange proto src req addr = Some (bytes, dst)" by auto
  with server_reply_response [OF assms(1)] show ?thesis by blast
qed

theorem forwarded_answer_matches_request_witness:
  "\<exists>m addr. addr \<in> set sample_servers \<and> sample_upstream addr sample_request = Response m \<and>
     msg_id m \<noteq> 7 \<and> msg_id (reply_message wire (m\<lparr>msg_id := msg_id sample_request\<rparr>)) = 7"
proof -
  obtain evs where evs: "forward_to_servers wire (\<lambda>_. True) sample_upstream sample_servers
      sample_client sample_request Udp = Some evs" "sent evs = [(''ok example.org.=9.9.9.9'', sample_client)]"
    using sample_forward by blast
  then have "(''ok example.org.=9.9.9.9'', sample_client) \<in> set (sent evs)" by simp
  from forwarded_answer_matches_request [OF wire_ok evs(1) this]
  obtain m addr where m: "addr \<in> set sample_servers" "sample_upstream addr sample_request = Response m"
    "msg_id (reply_message wire (m\<lparr>msg_id := msg_id sample_request\<rparr>)) = msg_id sample_request"
    by blast
  then have "msg_id m \<noteq> 7" by (auto simp: sample_upstream_def split: if_splits)
  with m show ?thesis by (auto simp: sample_request_def)
qed

text \<open>C19: A forwarded query is given up in bounded time: all the waiting for upstream servers
  takes at most five seconds over UDP and ten over TCP (connecting and asking), however many
  servers there are, and no number of servers below 2 to the 32 makes the division panic.\<close>

theorem forwarding_time_bounded:
  assumes "length servers < 2 ^ 32"
  shows "\<exists>evs. forward_to_servers H connects exchange servers src req proto = Some evs \<and>
    waits evs \<le> (case proto of Udp \<Rightarrow> 5 | Tcp \<Rightarrow> 10) * 10 ^ 9"
proof (cases "servers = []")
  case True
  then show ?thesis by (simp add: forward_to_servers_def server_timeout_def)
next
  case False
  let ?t = "5 * 10 ^ 9 div length servers" and ?k = "case proto of Udp \<Rightarrow> 1 | Tcp \<Rightarrow> (2 :: nat)"
  have "server_timeout (length servers) = Some ?t"
    using False assms by (simp add: server_timeout_def)
  then have "forward_to_servers H connects exchange servers src req proto =
      Some (forward_loop H connects exchange ?t proto src req servers)"
    by (simp add: forward_to_servers_def)
  moreover have "waits (forward_loop H connects exchange ?t proto src req servers) \<le>
      (case proto of Udp \<Rightarrow> 5 | Tcp \<Rightarrow> 10) * 10 ^ 9"
  proof (rule order_trans [OF forward_loop_waits])
    have "?k * (length servers * ?t) \<le> ?k * (5 * 10 ^ 9)"
      by (rule mult_left_mono) simp_all
    also have "?k * (5 * 10 ^ 9) = (case proto of Udp \<Rightarrow> 5 | Tcp \<Rightarrow> 10) * 10 ^ 9"
      by (cases proto) simp_all
    finally show "?k * (length servers * ?t) \<le> (case proto of Udp \<Rightarrow> 5 | Tcp \<Rightarrow> 10) * 10 ^ 9" .
  qed
  ultimately show ?thesis by blast
qed

theorem forwarding_time_bounded_witness:
  "\<exists>evs. forward_to_servers wire (\<lambda>_. False) sample_upstream sample_servers sample_client
     sample_request Tcp = Some evs \<and> waits evs \<le> 10 * 10 ^ 9"
proof -
  have "length sample_servers < 2 ^ 32" by (simp add: sample_servers_def)
  from forwarding_time_bounded [OF this, of wire "\<lambda>_. False" sample_upstream sample_client
      sample_request Tcp]
  show ?thesis by (simp only: protocol.case)
qed

end
