(* ===== verification/Core_Loop.thy ===== *)
theory Core_Loop
  imports Dns_Props Forwarding
begin

text \<open>
  The tasks of one server, \<open>CoreDns::run\<close> and \<open>process_tcp_stream\<close> of \<open>src/dns/coredns.rs\<close>, as
  machines that read a sequence of events: the order in which \<open>select!\<close> finds its branches
  ready is the order of the events.  The store and the host's servers may be replaced between
  two messages, so an event that brings a message carries the values shared at that moment.
\<close>

section \<open>The UDP and accept loop\<close>

type_synonym shared = "dns_backend \<times> socket_addr list"

definition core_dns_new :: "string \<Rightarrow> dns_backend \<Rightarrow> bool \<Rightarrow> socket_addr list \<Rightarrow> core_dns_data" where
  "core_dns_new net be no_prox ns =
     \<lparr>network_name = net, backend = be, no_proxy = no_prox, nameservers = ns\<rparr>"

definition load :: "shared \<Rightarrow> core_dns_data \<Rightarrow> core_dns_data" where
  "load sh inner = inner\<lparr>backend := fst sh, nameservers := snd sh\<rparr>"

text \<open>
  \<open>Kill\<close> is the end of \<open>recv_async\<close> on the kill switch; \<open>Udp_Next\<close> is what the UDP stream
  yields; \<open>Tcp_Accept\<close> is what accepting a connection yields.
\<close>

datatype run_event =
    Kill
  | Udp_Next shared "(io_error + serial_message) option"
  | Tcp_Accept "io_error + socket_addr"

datatype ('n, 'r, 'x) run_effect =
    Processed "('n, 'r, 'x) outcome"
  | Spawned_Tcp socket_addr

text \<open>The loop: the effects, and whether the loop has been left.\<close>

fun run_loop ::
  "('n, 'r, 'x) hickory \<Rightarrow> (string \<Rightarrow> string) \<Rightarrow> core_dns_data \<Rightarrow> run_event list \<Rightarrow>
   ('n, 'r, 'x) run_effect list \<times> bool"
where
  "run_loop H uni inner [] = ([], False)"
| "run_loop H uni inner (Kill # evs) = ([], True)"
| "run_loop H uni inner (Udp_Next sh v # evs) =
     (case v of
        Some (Inr msg) \<Rightarrow>
          (let effect = Processed (process_message H uni (load sh inner) msg Udp)
           in case run_loop H uni inner evs of (effects, left) \<Rightarrow> (effect # effects, left))
      | Some (Inl e) \<Rightarrow> run_loop H uni inner evs
      | None \<Rightarrow> run_loop H uni inner evs)"
| "run_loop H uni inner (Tcp_Accept res # evs) =
     (case res of
        Inr addr \<Rightarrow>
          (case run_loop H uni inner evs of (effects, left) \<Rightarrow> (Spawned_Tcp addr # effects, left))
      | Inl e \<Rightarrow> ([], True))"

text \<open>\<open>run\<close>: its result is \<open>None\<close> while the loop is running.\<close>

definition run ::
  "('n, 'r, 'x) hickory \<Rightarrow> (string \<Rightarrow> string) \<Rightarrow> core_dns_data \<Rightarrow> io_error + socket_addr \<Rightarrow>
   run_event list \<Rightarrow> ('n, 'r, 'x) run_effect list \<times> unit aardvark_result option" where
  "run H uni inner local_addr evs =
     (case local_addr of
        Inl e \<Rightarrow> ([], Some (Inl (from_io_error e)))
      | Inr address \<Rightarrow>
          (case run_loop H uni inner evs of (effects, left) \<Rightarrow>
             (effects, if left then Some (Inr ()) else None)))"

section \<open>A TCP connection\<close>

datatype tcp_item = Tcp_Message shared serial_message | Tcp_Error io_error | Tcp_End

definition TCP_TIMEOUT :: nat where
  "TCP_TIMEOUT = 3000"

text \<open>
  The next item of the stream and the milliseconds it takes to come; the outcomes of the
  messages, the time spent waiting, and whether the connection has been closed.
\<close>

fun tcp_loop ::
  "('n, 'r, 'x) hickory \<Rightarrow> (string \<Rightarrow> string) \<Rightarrow> core_dns_data \<Rightarrow> (nat \<times> tcp_item) list \<Rightarrow>
   ('n, 'r, 'x) outcome list \<times> nat \<times> bool"
where
  "tcp_loop H uni inner [] = ([], 0, False)"
| "tcp_loop H uni inner ((delay, item) # items) =
     (if TCP_TIMEOUT < delay then ([], TCP_TIMEOUT, True)
      else
        (case item of
           Tcp_Message sh msg \<Rightarrow>
             (let outcome = process_message H uni (load sh inner) msg Tcp
              in case tcp_loop H uni inner items of (outcomes, waited, closed) \<Rightarrow>
                   (outcome # outcomes, delay + waited, closed))
         | Tcp_Error e \<Rightarrow> ([], delay, True)
         | Tcp_End \<Rightarrow> ([], delay, True)))"

section \<open>Properties\<close>

definition stops_run :: "run_event \<Rightarrow> bool" where
  "stops_run e \<longleftrightarrow> (case e of Kill \<Rightarrow> True | Tcp_Accept (Inl err) \<Rightarrow> True | _ \<Rightarrow> False)"

definition run_effects ::
  "('n, 'r, 'x) hickory \<Rightarrow> (string \<Rightarrow> string) \<Rightarrow> core_dns_data \<Rightarrow> run_event \<Rightarrow>
   ('n, 'r, 'x) run_effect list" where
  "run_effects H uni inner e =
     (case e of
        Udp_Next sh (Some (Inr msg)) \<Rightarrow> [Processed (process_message H uni (load sh inner) msg Udp)]
      | Tcp_Accept (Inr addr) \<Rightarrow> [Spawned_Tcp addr]
      | _ \<Rightarrow> [])"

lemma run_loop_spec:
  "run_loop H uni inner evs =
     (concat (map (run_effects H uni inner) (takeWhile (\<lambda>e. \<not> stops_run e) evs)), list_ex stops_run evs)"
  by (induction H uni inner evs rule: run_loop.induct)
    (auto simp: stops_run_def run_effects_def Let_def split: option.split sum.split)

text \<open>A server runs until it is killed or accepting a connection fails, and then ends without
  an error: until then every UDP message is processed with the store and the host servers of
  that moment and every connection gets its task, while a stream error or an empty read
  changes nothing; after the end nothing is processed any more.\<close>

theorem run_until_stopped:
  "run H uni inner (Inr addr) evs =
     (concat (map (run_effects H uni inner) (takeWhile (\<lambda>e. \<not> stops_run e) evs)),
      if list_ex stops_run evs then Some (Inr ()) else None) \<and>
   run H uni inner (Inr addr) (evs @ Kill # evs') = run H uni inner (Inr addr) (evs @ [Kill])"
proof
  show "run H uni inner (Inr addr) evs =
     (concat (map (run_effects H uni inner) (takeWhile (\<lambda>e. \<not> stops_run e) evs)),
      if list_ex stops_run evs then Some (Inr ()) else None)"
    by (simp add: run_def run_loop_spec)
  have kill: "stops_run Kill" by (simp add: stops_run_def)
  show "run H uni inner (Inr addr) (evs @ Kill # evs') = run H uni inner (Inr addr) (evs @ [Kill])"
    by (simp add: run_def run_loop_spec kill takeWhile_append)
qed

text \<open>C20: A TCP client cannot hold a connection open by being silent: the task waits at most
  three seconds for each message and for the end, and a silence longer than that closes the
  connection, whatever the client sends afterwards.\<close>

theorem tcp_idle_bounded:
  assumes "tcp_loop H uni inner items = (outcomes, waited, closed)"
  shows "waited \<le> TCP_TIMEOUT * (length outcomes + (if closed then 1 else 0)) \<and>
    (list_ex (\<lambda>(delay, item). TCP_TIMEOUT < delay) items \<longrightarrow> closed)"
  using assms
proof (induction H uni inner items arbitrary: outcomes waited closed rule: tcp_loop.induct)
  case (1 H uni inner)
  then show ?case by simp
next
  case (2 H uni inner delay item items)
  show ?case
  proof (cases "TCP_TIMEOUT < delay")
    case True
    with 2 show ?thesis by auto
  next
    case False
    obtain os w c where rest: "tcp_loop H uni inner items = (os, w, c)" by (metis prod_cases3)
    show ?thesis
    proof (cases item)
      case (Tcp_Message sh msg)
      note ih = 2(1) [OF False Tcp_Message refl rest]
      from 2(2) False Tcp_Message rest have "outcomes = process_message H uni (load sh inner) msg Tcp # os"
        "waited = delay + w" "closed = c" by (simp_all add: Let_def)
      with ih False show ?thesis by auto
    qed (use 2 False in auto)
  qed
qed

theorem tcp_idle_bounded_witness:
  "\<exists>outcomes waited closed. tcp_loop wire id web_data
       [(20, Tcp_Message (web_store, []) (query_bytes CHR 0x01 ''web.'', web_client)),
        (60000, Tcp_Message (web_store, []) (query_bytes CHR 0x01 ''web.'', web_client))] =
       (outcomes, waited, closed) \<and> waited \<le> TCP_TIMEOUT * (length outcomes + 1) \<and> closed"
proof -
  let ?items = "[(20, Tcp_Message (web_store, []) (query_bytes CHR 0x01 ''web.'', web_client)),
      (60000, Tcp_Message (web_store, []) (query_bytes CHR 0x01 ''web.'', web_client))]"
  obtain os w c where run: "tcp_loop wire id web_data ?items = (os, w, c)" by (metis prod_cases3)
  have "list_ex (\<lambda>(delay, item). TCP_TIMEOUT < delay) ?items" by (simp add: TCP_TIMEOUT_def)
  with tcp_idle_bounded [OF run] run show ?thesis by auto
qed

text \<open>TCP and UDP queries get the same answer: only where a query is forwarded does the
  transport matter, and then it is the transport upstream is asked with.\<close>

theorem transport_independent:
  "process_message H uni data msg Tcp =
     (case process_message H uni data msg Udp of
        Forwarded ns dst m p \<Rightarrow> Forwarded ns dst m Tcp
      | outcome \<Rightarrow> outcome)"
  by (auto simp: process_message_def Let_def split: option.split prod.split)

end
