(* ===== verification/Config_Dir.thy ===== *)
theory Config_Dir
  imports Config
begin

text \<open>
  \<open>parse_configs\<close> of \<open>src/config/mod.rs\<close>: it reads every file of the configuration
  directory and builds the maps of the DNS store and the listen addresses.  The directory is
  the argument: what \<open>metadata\<close>, \<open>read_dir\<close> and each directory entry give.  The state is the
  record of the function's local maps, plus the error lines it logs, because the program
  decides there which errors are silent.  Maps that are only looked up are partial functions,
  maps that are iterated over are association lists; \<open>order\<close> is the order in which the hash
  map of container addresses is iterated.
\<close>

section \<open>The directory and the state of the loop\<close>

text \<open>
  A directory entry: its name as bytes (\<open>path_display\<close> and \<open>name_lossy\<close> are what the
  lossy conversions print of its path and name) and its contents or the error of opening it.
\<close>

record dir_entry =
  path_display :: string
  file_name :: "string option"
  name_lossy :: string
  contents :: "io_error + string"

datatype log_line =
    Log_Read_Error string aardvark_error
  | Log_List_Error io_error

record config_state =
  st_network_membership :: "string \<rightharpoonup> string list"
  st_container_ips :: "(string \<times> ip_addr list) list"
  st_reverse :: "string \<rightharpoonup> (ip_addr \<rightharpoonup> string list)"
  st_network_names :: "string \<rightharpoonup> (string \<rightharpoonup> ip_addr list)"
  st_listen_ips_4 :: "(string \<times> ipv4 list) list"
  st_listen_ips_6 :: "(string \<times> ipv6 list) list"
  st_ctr_dns_server :: "ip_addr \<rightharpoonup> ip_addr list option"
  st_network_dns_server :: "string \<rightharpoonup> ip_addr list"
  st_network_is_internal :: "string \<rightharpoonup> bool"
  st_log :: "log_line list"

definition initial_state :: config_state where
  "initial_state =
     \<lparr>st_network_membership = Map.empty, st_container_ips = [], st_reverse = Map.empty,
      st_network_names = Map.empty, st_listen_ips_4 = [], st_listen_ips_6 = [],
      st_ctr_dns_server = Map.empty, st_network_dns_server = Map.empty,
      st_network_is_internal = Map.empty, st_log = []\<rparr>"

definition AARDVARK_PID_FILE :: string where
  "AARDVARK_PID_FILE = ''aardvark.pid''"

definition INTERNAL_SUFFIX :: string where
  "INTERNAL_SUFFIX = ''%int''"

section \<open>One container entry\<close>

definition add_membership :: "string \<Rightarrow> ctr_entry \<Rightarrow> config_state \<Rightarrow> config_state" where
  "add_membership net e st =
     (let ctr_networks = or_default (st_network_membership st (ctr_id e));
          ctr_networks = (if net \<in> set ctr_networks then ctr_networks else ctr_networks @ [net])
      in st\<lparr>st_network_membership := (st_network_membership st)(ctr_id e \<mapsto> ctr_networks)\<rparr>)"

text \<open>The body of the two loops over the IPv4 and the IPv6 addresses of an entry.\<close>

definition add_ip :: "string \<Rightarrow> bool \<Rightarrow> ctr_entry \<Rightarrow> ip_addr \<Rightarrow> config_state \<Rightarrow> config_state" where
  "add_ip net internal e ip st =
     (let st = st\<lparr>st_reverse := nested_push (net, ip) (ctr_aliases e) (st_reverse st)\<rparr>
      in if \<not> internal
         then st\<lparr>st_ctr_dns_server := (st_ctr_dns_server st)(ip \<mapsto> ctr_dns_servers e)\<rparr>
         else st)"

definition entry_ips :: "ctr_entry \<Rightarrow> ip_addr list" where
  "entry_ips e = map V4 (or_default (ctr_v4 e)) @ map V6 (or_default (ctr_v6 e))"

definition add_aliases :: "string \<Rightarrow> ctr_entry \<Rightarrow> ip_addr list \<Rightarrow> config_state \<Rightarrow> config_state" where
  "add_aliases net e new_ctr_ips st =
     st\<lparr>st_network_names :=
          fold (\<lambda>alias. nested_push (net, alias) new_ctr_ips) (ctr_aliases e)
            (nested_touch net (st_network_names st))\<rparr>"

definition add_entry :: "string \<Rightarrow> bool \<Rightarrow> ctr_entry \<Rightarrow> config_state \<Rightarrow> config_state" where
  "add_entry net internal e st =
     (let st = add_membership net e st;
          st = fold (\<lambda>ip. add_ip net internal e (V4 ip)) (or_default (ctr_v4 e)) st;
          st = fold (\<lambda>ip. add_ip net internal e (V6 ip)) (or_default (ctr_v6 e)) st;
          new_ctr_ips = entry_ips e;
          st = st\<lparr>st_container_ips := alist_push (ctr_id e) new_ctr_ips (st_container_ips st)\<rparr>;
          st = add_aliases net e new_ctr_ips st
      in st\<lparr>st_network_is_internal := (st_network_is_internal st)(net \<mapsto> internal)\<rparr>)"

section \<open>One configuration file\<close>

definition add_listen_ip :: "string \<Rightarrow> ip_addr \<Rightarrow> config_state \<Rightarrow> config_state" where
  "add_listen_ip net ip st =
     (case ip of
        V4 a \<Rightarrow> st\<lparr>st_listen_ips_4 := alist_push net [a] (st_listen_ips_4 st)\<rparr>
      | V6 b \<Rightarrow> st\<lparr>st_listen_ips_6 := alist_push net [b] (st_listen_ips_6 st)\<rparr>)"

definition add_network_dns :: "string \<Rightarrow> bool \<Rightarrow> ip_addr list \<Rightarrow> config_state \<Rightarrow> config_state" where
  "add_network_dns net internal servers st =
     (let st = (if servers \<noteq> [] \<and> \<not> internal
                then st\<lparr>st_network_dns_server := (st_network_dns_server st)(net \<mapsto> servers)\<rparr>
                else st)
      in if internal
         then st\<lparr>st_network_dns_server := (st_network_dns_server st)(net \<mapsto> [])\<rparr>
         else st)"

type_synonym network_config = "string \<times> bool \<times> parsed_network_config"

definition add_config :: "network_config \<Rightarrow> config_state \<Rightarrow> config_state" where
  "add_config nc st =
     (case nc of (net, internal, c) \<Rightarrow>
        (let st = add_network_dns net internal (network_dnsservers c) st;
             st = fold (add_listen_ip net) (network_bind_ip c) st
         in fold (add_entry net internal) (container_entry c) st))"

text \<open>Which errors of reading a file are logged: the guard as the source has it.\<close>

definition log_read_error :: "dir_entry \<Rightarrow> aardvark_error \<Rightarrow> config_state \<Rightarrow> config_state" where
  "log_read_error cfg e st =
     (case e of
        IOError io \<Rightarrow>
          if kind io \<noteq> NotFound then st
          else st\<lparr>st_log := st_log st @ [Log_Read_Error (path_display cfg) e]\<rparr>
      | _ \<Rightarrow> st\<lparr>st_log := st_log st @ [Log_Read_Error (path_display cfg) e]\<rparr>)"

text \<open>The name of the network and whether it is internal, from the name of the file.\<close>

definition network_of_file :: "string \<Rightarrow> string \<times> bool" where
  "network_of_file name_full =
     ((case strip_suffix INTERNAL_SUFFIX name_full of Some n \<Rightarrow> n | None \<Rightarrow> name_full),
      ends_with name_full INTERNAL_SUFFIX)"

text \<open>One directory entry: the next state, and the error when the function returns early.\<close>

definition process_file ::
  "(string \<Rightarrow> string) \<Rightarrow> dir_entry \<Rightarrow> config_state \<Rightarrow> config_state \<times> aardvark_error option" where
  "process_file uni cfg st =
     (if file_name cfg = Some AARDVARK_PID_FILE then (st, None)
      else
        (case parse_config uni (path_display cfg) (contents cfg) of
           Inl e \<Rightarrow> (log_read_error cfg e st, None)
         | Inr parsed_network_config \<Rightarrow>
             (case file_name cfg of
                Some s \<Rightarrow>
                  if utf8_valid s then
                    (case network_of_file s of (network_name, internal) \<Rightarrow>
                       (add_config (network_name, internal, parsed_network_config) st, None))
                  else (st, Some (error_msg (''configuration file '' @ name_lossy cfg @
                          '' name has non-UTF8 characters'')))
              | None \<Rightarrow> (st, Some (error_msg (''configuration file '' @ path_display cfg @
                          '' does not have a file name, cannot identify network name''))))))"

section \<open>The whole directory\<close>

fun process_files ::
  "(string \<Rightarrow> string) \<Rightarrow> (io_error + dir_entry) list \<Rightarrow> config_state \<Rightarrow>
   config_state \<times> aardvark_error option"
where
  "process_files uni [] st = (st, None)"
| "process_files uni (Inl e # configs) st =
     process_files uni configs
       (if kind e \<noteq> NotFound then st\<lparr>st_log := st_log st @ [Log_List_Error e]\<rparr> else st)"
| "process_files uni (Inr cfg # configs) st =
     (case process_file uni cfg st of
        (st', None) \<Rightarrow> process_files uni configs st'
      | (st', Some e) \<Rightarrow> (st', Some e))"

text \<open>The networks of each address, from the addresses and the networks of each container.\<close>

fun build_ctrs ::
  "(string \<rightharpoonup> string list) \<Rightarrow> (string \<times> ip_addr list) list \<Rightarrow> (ip_addr \<rightharpoonup> string list) \<Rightarrow>
   (ip_addr \<rightharpoonup> string list) aardvark_result"
where
  "build_ctrs membership [] ctrs = Inr ctrs"
| "build_ctrs membership ((ctr_id', ips) # container_ips) ctrs =
     (case membership ctr_id' of
        Some s \<Rightarrow> build_ctrs membership container_ips (fold (\<lambda>ip. map_push ip s) ips ctrs)
      | None \<Rightarrow> Inl (error_msg (''Container ID '' @ ctr_id' @
          '' has an entry in IPs table, but not network membership table'')))"

type_synonym listen_ips = "(string \<times> ipv4 list) list \<times> (string \<times> ipv6 list) list"

definition parse_configs ::
  "(string \<Rightarrow> string) \<Rightarrow> ((string \<times> ip_addr list) list \<Rightarrow> (string \<times> ip_addr list) list) \<Rightarrow>
   string \<Rightarrow> io_error + bool \<Rightarrow> io_error + (io_error + dir_entry) list \<Rightarrow> string \<Rightarrow>
   log_line list \<times> (dns_backend \<times> listen_ips) aardvark_result"
where
  "parse_configs uni order dir metadata_is_dir read_dir filter_search_domain =
     (case metadata_is_dir of
        Inl e \<Rightarrow> ([], Inl (from_io_error e))
      | Inr False \<Rightarrow>
          ([], Inl (error_msg (''config directory '' @ dir @ '' must exist and be a directory'')))
      | Inr True \<Rightarrow>
     (case read_dir of
        Inl e \<Rightarrow> ([], Inl (from_io_error e))
      | Inr configs \<Rightarrow>
     (case process_files uni configs initial_state of
        (st, Some e) \<Rightarrow> (st_log st, Inl e)
      | (st, None) \<Rightarrow>
     (case build_ctrs (st_network_membership st) (order (st_container_ips st)) Map.empty of
        Inl e \<Rightarrow> (st_log st, Inl e)
      | Inr ctrs \<Rightarrow>
          (st_log st,
           Inr (backend_new ctrs (st_network_names st) (st_reverse st) (st_ctr_dns_server st)
                  (st_network_dns_server st) (st_network_is_internal st) filter_search_domain,
                (st_listen_ips_4 st, st_listen_ips_6 st)))))))"

section \<open>What the loops leave in the maps\<close>

text \<open>The updates each map receives from an entry and from a file, as lists.\<close>

definition ip_updates :: "network_config \<Rightarrow> (string \<times> ip_addr list) list" where
  "ip_updates nc = (case nc of (net, internal, c) \<Rightarrow>
     map (\<lambda>e. (ctr_id e, entry_ips e)) (container_entry c))"

definition reverse_updates :: "network_config \<Rightarrow> ((string \<times> ip_addr) \<times> string list) list" where
  "reverse_updates nc = (case nc of (net, internal, c) \<Rightarrow>
     concat (map (\<lambda>e. map (\<lambda>ip. ((net, ip), ctr_aliases e)) (entry_ips e)) (container_entry c)))"

definition name_updates :: "network_config \<Rightarrow> ((string \<times> string) \<times> ip_addr list) list" where
  "name_updates nc = (case nc of (net, internal, c) \<Rightarrow>
     concat (map (\<lambda>e. map (\<lambda>alias. ((net, alias), entry_ips e)) (ctr_aliases e))
       (container_entry c)))"

definition ctr_dns_updates :: "network_config \<Rightarrow> (ip_addr \<times> ip_addr list option) list" where
  "ctr_dns_updates nc = (case nc of (net, internal, c) \<Rightarrow>
     if internal then []
     else concat (map (\<lambda>e. map (\<lambda>ip. (ip, ctr_dns_servers e)) (entry_ips e)) (container_entry c)))"

definition network_dns_updates :: "network_config \<Rightarrow> (string \<times> ip_addr list) list" where
  "network_dns_updates nc = (case nc of (net, internal, c) \<Rightarrow>
     if internal then [(net, [])]
     else if network_dnsservers c = [] then [] else [(net, network_dnsservers c)])"

definition internal_updates :: "network_config \<Rightarrow> (string \<times> bool) list" where
  "internal_updates nc = (case nc of (net, internal, c) \<Rightarrow>
     map (\<lambda>e. (net, internal)) (container_entry c))"

lemma add_ip_fields [simp]:
  "st_network_membership (add_ip net i e ip st) = st_network_membership st"
  "st_container_ips (add_ip net i e ip st) = st_container_ips st"
  "st_network_names (add_ip net i e ip st) = st_network_names st"
  "st_listen_ips_4 (add_ip net i e ip st) = st_listen_ips_4 st"
  "st_listen_ips_6 (add_ip net i e ip st) = st_listen_ips_6 st"
  "st_network_dns_server (add_ip net i e ip st) = st_network_dns_server st"
  "st_network_is_internal (add_ip net i e ip st) = st_network_is_internal st"
  "st_reverse (add_ip net i e ip st) = nested_push (net, ip) (ctr_aliases e) (st_reverse st)"
  "st_ctr_dns_server (add_ip net i e ip st) =
     (if i then st_ctr_dns_server st else (st_ctr_dns_server st)(ip \<mapsto> ctr_dns_servers e))"
  by (simp_all add: add_ip_def Let_def)

lemma add_membership_fields [simp]:
  "st_container_ips (add_membership net e st) = st_container_ips st"
  "st_network_names (add_membership net e st) = st_network_names st"
  "st_listen_ips_4 (add_membership net e st) = st_listen_ips_4 st"
  "st_listen_ips_6 (add_membership net e st) = st_listen_ips_6 st"
  "st_network_dns_server (add_membership net e st) = st_network_dns_server st"
  "st_network_is_internal (add_membership net e st) = st_network_is_internal st"
  "st_reverse (add_membership net e st) = st_reverse st"
  "st_ctr_dns_server (add_membership net e st) = st_ctr_dns_server st"
  by (simp_all add: add_membership_def Let_def)

text \<open>The two address loops are one loop over all addresses of the entry.\<close>

definition add_ips :: "string \<Rightarrow> bool \<Rightarrow> ctr_entry \<Rightarrow> config_state \<Rightarrow> config_state" where
  "add_ips net internal e = fold (add_ip net internal e) (entry_ips e)"

lemma add_ips_loops:
  "fold (\<lambda>ip. add_ip net i e (V6 ip)) (or_default (ctr_v6 e))
     (fold (\<lambda>ip. add_ip net i e (V4 ip)) (or_default (ctr_v4 e)) st) = add_ips net i e st"
  by (simp add: add_ips_def entry_ips_def fold_map comp_def)

lemma add_ips_fields [simp]:
  "st_network_membership (add_ips net i e st) = st_network_membership st"
  "st_container_ips (add_ips net i e st) = st_container_ips st"
  "st_network_names (add_ips net i e st) = st_network_names st"
  "st_listen_ips_4 (add_ips net i e st) = st_listen_ips_4 st"
  "st_listen_ips_6 (add_ips net i e st) = st_listen_ips_6 st"
  "st_network_dns_server (add_ips net i e st) = st_network_dns_server st"
  "st_network_is_internal (add_ips net i e st) = st_network_is_internal st"
  by (simp_all add: add_ips_def fold_project_same)

end
