(* ===== verification/Config_Spec.thy ===== *)
theory Config_Spec
  imports Config_Dir
begin

text \<open>
  What \<open>parse_configs\<close> means.  The specification knows no maps: it speaks of the
  configuration files that were read (\<open>config_files\<close>) and of which container owns an
  address, belongs to a network or answers to a name in them.  The lemmas carry each map
  of the loop to the list of its updates; the theorems say that the store built by
  \<open>parse_configs\<close> answers every lookup as the specification does.
\<close>

section \<open>The files that count\<close>

text \<open>A directory entry that is read and parsed, with its network and its internal flag.\<close>

definition config_of_file :: "(string \<Rightarrow> string) \<Rightarrow> dir_entry \<Rightarrow> network_config option" where
  "config_of_file uni cfg =
     (if file_name cfg = Some AARDVARK_PID_FILE then None
      else
        (case parse_config uni (path_display cfg) (contents cfg) of
           Inl e \<Rightarrow> None
         | Inr c \<Rightarrow>
             (case file_name cfg of
                None \<Rightarrow> None
              | Some s \<Rightarrow>
                  if utf8_valid s
                  then Some (fst (network_of_file s), snd (network_of_file s), c)
                  else None)))"

definition config_files :: "(string \<Rightarrow> string) \<Rightarrow> (io_error + dir_entry) list \<Rightarrow> network_config list" where
  "config_files uni configs =
     List.map_filter (\<lambda>c. case c of Inl e \<Rightarrow> None | Inr cfg \<Rightarrow> config_of_file uni cfg) configs"

text \<open>The container, network and name relations of a list of configurations.\<close>

definition entry_in :: "network_config list \<Rightarrow> string \<Rightarrow> bool \<Rightarrow> ctr_entry \<Rightarrow> bool" where
  "entry_in cfgs net internal e \<longleftrightarrow>
     (\<exists>c. (net, internal, c) \<in> set cfgs \<and> e \<in> set (container_entry c))"

definition owns :: "network_config list \<Rightarrow> string \<Rightarrow> ip_addr \<Rightarrow> bool" where
  "owns cfgs id' ip \<longleftrightarrow>
     (\<exists>net i e. entry_in cfgs net i e \<and> ctr_id e = id' \<and> ip \<in> set (entry_ips e))"

definition member_of :: "network_config list \<Rightarrow> string \<Rightarrow> string \<Rightarrow> bool" where
  "member_of cfgs id' net \<longleftrightarrow> (\<exists>i e. entry_in cfgs net i e \<and> ctr_id e = id')"

definition named :: "network_config list \<Rightarrow> string \<Rightarrow> string \<Rightarrow> ip_addr \<Rightarrow> bool" where
  "named cfgs net name ip \<longleftrightarrow>
     (\<exists>i e. entry_in cfgs net i e \<and> name \<in> set (ctr_aliases e) \<and> ip \<in> set (entry_ips e))"

text \<open>The networks a requester may look names up in.\<close>

definition may_see :: "network_config list \<Rightarrow> ip_addr \<Rightarrow> string \<Rightarrow> string \<Rightarrow> bool" where
  "may_see cfgs requester listen_net net \<longleftrightarrow>
     (if \<exists>id'. owns cfgs id' requester
      then \<exists>id'. owns cfgs id' requester \<and> member_of cfgs id' net
      else net = listen_net)"

text \<open>
  Whether a network counts as internal: when a network has several files (\<open>a\<close> and \<open>a%int\<close>), the
  flag of the last one that was read and has a container, since the map is overwritten with each.
\<close>

fun network_flag :: "network_config list \<Rightarrow> string \<Rightarrow> bool option" where
  "network_flag [] net = None"
| "network_flag ((n, i, c) # cfgs) net =
     (case network_flag cfgs net of
        Some b \<Rightarrow> Some b
      | None \<Rightarrow> if n = net \<and> container_entry c \<noteq> [] then Some i else None)"

text \<open>A requester all of whose containers are only in networks that count as internal.\<close>

definition internal_only :: "network_config list \<Rightarrow> ip_addr \<Rightarrow> bool" where
  "internal_only cfgs ip \<longleftrightarrow> (\<exists>k. owns cfgs k ip) \<and>
     \<not> (\<exists>k net. owns cfgs k ip \<and> member_of cfgs k net \<and> network_flag cfgs net = Some False)"

section \<open>The loop over the directory\<close>

lemma log_read_error_fields:
  "log_read_error cfg e st = st\<lparr>st_log := st_log (log_read_error cfg e st)\<rparr>"
  by (simp add: log_read_error_def split: aardvark_error.split)

text \<open>The state with another log, and with none.\<close>

definition relog :: "log_line list \<Rightarrow> config_state \<Rightarrow> config_state" where
  "relog l st = st\<lparr>st_log := l\<rparr>"

abbreviation quiet :: "config_state \<Rightarrow> config_state" where
  "quiet \<equiv> relog []"

lemma relog_log [simp]: "relog l (st\<lparr>st_log := m\<rparr>) = relog l st"
  by (simp add: relog_def)

lemma relog_add_ip: "relog l (add_ip net i e ip st) = add_ip net i e ip (relog l st)"
  by (simp add: relog_def add_ip_def Let_def)

lemma relog_fold:
  "(\<And>x s. relog l (f x s) = f x (relog l s)) \<Longrightarrow> relog l (fold f xs s) = fold f xs (relog l s)"
  by (induction xs arbitrary: s) auto

lemma relog_add_entry: "relog l (add_entry net i e st) = add_entry net i e (relog l st)"
proof -
  have fields: "relog l (add_membership net e s) = add_membership net e (relog l s)"
    "relog l (add_aliases net e ips s) = add_aliases net e ips (relog l s)"
    "relog l (s\<lparr>st_container_ips := alist_push k ips (st_container_ips s)\<rparr>) =
       (relog l s)\<lparr>st_container_ips := alist_push k ips (st_container_ips (relog l s))\<rparr>"
    "relog l (s\<lparr>st_network_is_internal := (st_network_is_internal s)(net \<mapsto> i)\<rparr>) =
       (relog l s)\<lparr>st_network_is_internal := (st_network_is_internal (relog l s))(net \<mapsto> i)\<rparr>"
    for s ips k
    by (simp_all add: relog_def add_membership_def add_aliases_def Let_def)
  show ?thesis
    by (simp add: add_entry_def Let_def fields relog_fold relog_add_ip)
qed

lemma relog_add_config: "relog l (add_config nc st) = add_config nc (relog l st)"
proof -
  have dns: "relog l (add_network_dns net i servers s) = add_network_dns net i servers (relog l s)"
    and listen: "relog l (add_listen_ip net ip s) = add_listen_ip net ip (relog l s)"
    for net i servers ip s
    by (simp_all add: relog_def add_network_dns_def add_listen_ip_def Let_def split: ip_addr.split)
  show ?thesis
    by (cases nc) (simp add: add_config_def Let_def relog_fold relog_add_entry dns listen)
qed

lemma process_file_quiet:
  assumes "process_file uni cfg st = (st', None)"
  shows "quiet st' =
    (case config_of_file uni cfg of None \<Rightarrow> quiet st | Some nc \<Rightarrow> add_config nc (quiet st))"
proof -
  have "quiet (log_read_error cfg e st) = quiet st" for e
    by (subst log_read_error_fields) simp
  with assms show ?thesis
    by (auto simp: process_file_def config_of_file_def relog_add_config
        split: if_splits sum.splits option.splits prod.splits)
qed

lemma process_files_quiet:
  "process_files uni configs st = (st', None) \<Longrightarrow>
     quiet st' = fold add_config (config_files uni configs) (quiet st)"
proof (induction uni configs st rule: process_files.induct)
  case (1 uni st)
  then show ?case by (simp add: config_files_def map_filter_simps)
next
  case (2 uni e configs st)
  then show ?case by (auto simp: config_files_def map_filter_simps split: if_splits)
next
  case (3 uni cfg configs st)
  then obtain s where s: "process_file uni cfg st = (s, None)"
    and rest: "process_files uni configs s = (st', None)"
    by (auto split: prod.splits option.splits)
  from 3(1) [OF s [symmetric] refl rest] process_file_quiet [OF s]
  show ?case by (auto simp: config_files_def map_filter_simps split: option.splits)
qed

section \<open>The maps as lists of updates\<close>

abbreviation pushes :: "('k \<times> 'v list) list \<Rightarrow> ('k \<rightharpoonup> 'v list) \<Rightarrow> ('k \<rightharpoonup> 'v list)" where
  "pushes \<equiv> fold (\<lambda>(k, vs). map_push k vs)"

abbreviation overwrites :: "('k \<times> 'v) list \<Rightarrow> ('k \<rightharpoonup> 'v) \<Rightarrow> ('k \<rightharpoonup> 'v)" where
  "overwrites \<equiv> fold (\<lambda>(k, v) m. m(k \<mapsto> v))"

text \<open>\<open>network_membership\<close> keeps the networks of a container without duplicates.\<close>

definition note_network :: "string \<times> string \<Rightarrow> (string \<rightharpoonup> string list) \<Rightarrow> (string \<rightharpoonup> string list)" where
  "note_network p m =
     (let ns = or_default (m (fst p))
      in m(fst p \<mapsto> (if snd p \<in> set ns then ns else ns @ [snd p])))"

lemma note_networks_dom: "dom (fold note_network ups m) = dom m \<union> fst ` set ups"
  by (induction ups arbitrary: m) (auto simp: note_network_def Let_def)

lemma note_networks_set:
  "set (or_default (fold note_network ups m k)) =
     set (or_default (m k)) \<union> {n. (k, n) \<in> set ups}"
  by (induction ups arbitrary: m) (auto simp: note_network_def Let_def)

lemma note_networks_distinct:
  "(\<And>k. distinct (or_default (m k))) \<Longrightarrow> distinct (or_default (fold note_network ups m k))"
  by (induction ups arbitrary: m) (auto simp: note_network_def Let_def)

definition membership_updates :: "network_config \<Rightarrow> (string \<times> string) list" where
  "membership_updates nc = (case nc of (net, internal, c) \<Rightarrow>
     map (\<lambda>e. (ctr_id e, net)) (container_entry c))"

text \<open>One entry.\<close>

lemma add_ips_reverse:
  "nested_get (st_reverse (add_ips net i e st)) =
     pushes (map (\<lambda>ip. ((net, ip), ctr_aliases e)) (entry_ips e)) (nested_get (st_reverse st))"
proof -
  have "nested_get (st_reverse (fold (add_ip net i e) ips st)) =
      pushes (map (\<lambda>ip. ((net, ip), ctr_aliases e)) ips) (nested_get (st_reverse st))" for ips
    by (induction ips arbitrary: st) (simp_all add: nested.entries_push_map)
  then show ?thesis by (simp add: add_ips_def)
qed

lemma add_ips_ctr_dns:
  "st_ctr_dns_server (add_ips net i e st) =
     overwrites (if i then [] else map (\<lambda>ip. (ip, ctr_dns_servers e)) (entry_ips e))
       (st_ctr_dns_server st)"
proof -
  have "st_ctr_dns_server (fold (add_ip net i e) ips st) =
      overwrites (if i then [] else map (\<lambda>ip. (ip, ctr_dns_servers e)) ips)
        (st_ctr_dns_server st)" for ips
    by (induction ips arbitrary: st) simp_all
  then show ?thesis by (simp add: add_ips_def)
qed

lemma add_entry_eq:
  "add_entry net i e st =
     (let st = add_ips net i e (add_membership net e st);
          st = st\<lparr>st_container_ips := alist_push (ctr_id e) (entry_ips e) (st_container_ips st)\<rparr>;
          st = add_aliases net e (entry_ips e) st
      in st\<lparr>st_network_is_internal := (st_network_is_internal st)(net \<mapsto> i)\<rparr>)"
  by (simp add: add_entry_def add_ips_loops Let_def)

lemma add_entry_fields:
  "st_network_membership (add_entry net i e st) = note_network (ctr_id e, net) (st_network_membership st)"
  "st_container_ips (add_entry net i e st) = alist_push (ctr_id e) (entry_ips e) (st_container_ips st)"
  "nested_get (st_reverse (add_entry net i e st)) =
     pushes (map (\<lambda>ip. ((net, ip), ctr_aliases e)) (entry_ips e)) (nested_get (st_reverse st))"
  "nested_get (st_network_names (add_entry net i e st)) =
     pushes (map (\<lambda>alias. ((net, alias), entry_ips e)) (ctr_aliases e))
       (nested_get (st_network_names st))"
  "st_ctr_dns_server (add_entry net i e st) =
     overwrites (if i then [] else map (\<lambda>ip. (ip, ctr_dns_servers e)) (entry_ips e))
       (st_ctr_dns_server st)"
  "st_network_is_internal (add_entry net i e st) = (st_network_is_internal st)(net \<mapsto> i)"
  "st_listen_ips_4 (add_entry net i e st) = st_listen_ips_4 st"
  "st_listen_ips_6 (add_entry net i e st) = st_listen_ips_6 st"
  "st_network_dns_server (add_entry net i e st) = st_network_dns_server st"
proof -
  have names: "nested_get (fold (\<lambda>alias. nested_push (net, alias) ips) as m) =
      pushes (map (\<lambda>alias. ((net, alias), ips)) as) (nested_get m)" for ips as m
    by (induction as arbitrary: m) (simp_all add: nested.entries_push_map)
  have touch: "nested_get (nested_touch n m) = nested_get m" for n and m :: "string \<rightharpoonup> (string \<rightharpoonup> ip_addr list)"
    by (rule ext) simp
  show "nested_get (st_network_names (add_entry net i e st)) =
     pushes (map (\<lambda>alias. ((net, alias), entry_ips e)) (ctr_aliases e))
       (nested_get (st_network_names st))"
    by (simp add: add_entry_eq Let_def add_aliases_def names touch)
qed (simp_all add: add_entry_eq Let_def add_aliases_def add_ips_reverse add_ips_ctr_dns
      note_network_def add_membership_def)

text \<open>One file.\<close>

lemma add_listen_ip_fields [simp]:
  "st_network_membership (add_listen_ip net ip st) = st_network_membership st"
  "st_container_ips (add_listen_ip net ip st) = st_container_ips st"
  "st_reverse (add_listen_ip net ip st) = st_reverse st"
  "st_network_names (add_listen_ip net ip st) = st_network_names st"
  "st_ctr_dns_server (add_listen_ip net ip st) = st_ctr_dns_server st"
  "st_network_dns_server (add_listen_ip net ip st) = st_network_dns_server st"
  "st_network_is_internal (add_listen_ip net ip st) = st_network_is_internal st"
  by (simp_all add: add_listen_ip_def split: ip_addr.split)

lemma add_network_dns_fields [simp]:
  "st_network_membership (add_network_dns net i servers st) = st_network_membership st"
  "st_container_ips (add_network_dns net i servers st) = st_container_ips st"
  "st_reverse (add_network_dns net i servers st) = st_reverse st"
  "st_network_names (add_network_dns net i servers st) = st_network_names st"
  "st_listen_ips_4 (add_network_dns net i servers st) = st_listen_ips_4 st"
  "st_listen_ips_6 (add_network_dns net i servers st) = st_listen_ips_6 st"
  "st_ctr_dns_server (add_network_dns net i servers st) = st_ctr_dns_server st"
  "st_network_is_internal (add_network_dns net i servers st) = st_network_is_internal st"
  by (simp_all add: add_network_dns_def Let_def)

lemma add_config_fields:
  "st_network_membership (add_config nc st) =
     fold note_network (membership_updates nc) (st_network_membership st)"
  "map_of (st_container_ips (add_config nc st)) =
     pushes (ip_updates nc) (map_of (st_container_ips st))"
  "nested_get (st_reverse (add_config nc st)) =
     pushes (reverse_updates nc) (nested_get (st_reverse st))"
  "nested_get (st_network_names (add_config nc st)) =
     pushes (name_updates nc) (nested_get (st_network_names st))"
  "st_ctr_dns_server (add_config nc st) =
     overwrites (ctr_dns_updates nc) (st_ctr_dns_server st)"
  "st_network_dns_server (add_config nc st) =
     overwrites (network_dns_updates nc) (st_network_dns_server st)"
  "st_network_is_internal (add_config nc st) =
     overwrites (internal_updates nc) (st_network_is_internal st)"
proof -
  obtain net i c where nc: "nc = (net, i, c)" by (cases nc) auto
  have concat1: "concat (map (\<lambda>e. [f e]) es) = map f es" for f :: "ctr_entry \<Rightarrow> 'z" and es
    by (induction es) auto
  have if_map: "concat (map (\<lambda>e. if i then [] else g e) es) =
      (if i then [] else concat (map g es))" for g :: "ctr_entry \<Rightarrow> 'z list" and es
    by (induction es) auto
  show "st_network_membership (add_config nc st) =
      fold note_network (membership_updates nc) (st_network_membership st)"
    by (simp add: nc add_config_def Let_def membership_updates_def
        fold_project [where F = st_network_membership and g = note_network and
          ups = "\<lambda>e. [(ctr_id e, net)]"] add_entry_fields concat1
        fold_project_same [where F = st_network_membership and step = "add_listen_ip net"])
  show "map_of (st_container_ips (add_config nc st)) =
      pushes (ip_updates nc) (map_of (st_container_ips st))"
    by (simp add: nc add_config_def Let_def ip_updates_def
        fold_project [where F = "\<lambda>s. map_of (st_container_ips s)" and g = "\<lambda>(k, vs). map_push k vs"
          and ups = "\<lambda>e. [(ctr_id e, entry_ips e)]"] add_entry_fields concat1
        listed.entries_push_map
        fold_project_same [where F = st_container_ips and step = "add_listen_ip net"])
  show "nested_get (st_reverse (add_config nc st)) =
      pushes (reverse_updates nc) (nested_get (st_reverse st))"
    by (simp add: nc add_config_def Let_def reverse_updates_def
        fold_project [where F = "\<lambda>s. nested_get (st_reverse s)" and g = "\<lambda>(k, vs). map_push k vs",
          OF add_entry_fields(3)]
        fold_project_same [where F = st_reverse and step = "add_listen_ip net"])
  show "nested_get (st_network_names (add_config nc st)) =
      pushes (name_updates nc) (nested_get (st_network_names st))"
    by (simp add: nc add_config_def Let_def name_updates_def
        fold_project [where F = "\<lambda>s. nested_get (st_network_names s)" and g = "\<lambda>(k, vs). map_push k vs",
          OF add_entry_fields(4)]
        fold_project_same [where F = st_network_names and step = "add_listen_ip net"])
  show "st_ctr_dns_server (add_config nc st) = overwrites (ctr_dns_updates nc) (st_ctr_dns_server st)"
    by (simp add: nc add_config_def Let_def ctr_dns_updates_def if_map
        fold_project [where F = st_ctr_dns_server and g = "\<lambda>(k, v) m. m(k \<mapsto> v)",
          OF add_entry_fields(5)]
        fold_project_same [where F = st_ctr_dns_server and step = "add_listen_ip net"])
  show "st_network_dns_server (add_config nc st) =
      overwrites (network_dns_updates nc) (st_network_dns_server st)"
    by (simp add: nc add_config_def Let_def network_dns_updates_def add_network_dns_def
        fold_project_same [where F = st_network_dns_server and step = "add_listen_ip net"]
        fold_project_same [where F = st_network_dns_server and step = "add_entry net i"]
        add_entry_fields)
  show "st_network_is_internal (add_config nc st) =
      overwrites (internal_updates nc) (st_network_is_internal st)"
    by (simp add: nc add_config_def Let_def internal_updates_def
        fold_project [where F = st_network_is_internal and g = "\<lambda>(k, v) m. m(k \<mapsto> v)"
          and ups = "\<lambda>e. [(net, i)]"] add_entry_fields concat1
        fold_project_same [where F = st_network_is_internal and step = "add_listen_ip net"])
qed

text \<open>All files.\<close>

definition built :: "network_config list \<Rightarrow> config_state" where
  "built cfgs = fold add_config cfgs initial_state"

lemma nested_get_empty [simp]: "nested_get Map.empty = Map.empty"
  by (rule ext) (simp add: nested_get_def)

lemma built_fields:
  "st_network_membership (built cfgs) = fold note_network (concat (map membership_updates cfgs)) Map.empty"
  "map_of (st_container_ips (built cfgs)) = pushes (concat (map ip_updates cfgs)) Map.empty"
  "nested_get (st_reverse (built cfgs)) = pushes (concat (map reverse_updates cfgs)) Map.empty"
  "nested_get (st_network_names (built cfgs)) = pushes (concat (map name_updates cfgs)) Map.empty"
  "st_ctr_dns_server (built cfgs) = map_of (rev (concat (map ctr_dns_updates cfgs)))"
  "st_network_dns_server (built cfgs) = map_of (rev (concat (map network_dns_updates cfgs)))"
  "st_network_is_internal (built cfgs) = map_of (rev (concat (map internal_updates cfgs)))"
  unfolding built_def
  by (subst fold_project [where F = st_network_membership, OF add_config_fields(1)]
      fold_project [where F = "\<lambda>s. map_of (st_container_ips s)", OF add_config_fields(2)]
      fold_project [where F = "\<lambda>s. nested_get (st_reverse s)", OF add_config_fields(3)]
      fold_project [where F = "\<lambda>s. nested_get (st_network_names s)", OF add_config_fields(4)]
      fold_project [where F = st_ctr_dns_server, OF add_config_fields(5)]
      fold_project [where F = st_network_dns_server, OF add_config_fields(6)]
      fold_project [where F = st_network_is_internal, OF add_config_fields(7)],
     simp add: initial_state_def fold_overwrite)+

lemma in_updates:
  "x \<in> set (concat (map f cfgs)) \<longleftrightarrow>
     (\<exists>net i c. (net, i, c) \<in> set cfgs \<and> x \<in> set (f (net, i, c)))"
  by force

lemma entry_in_ip_updates:
  "(k, vs) \<in> set (concat (map ip_updates cfgs)) \<longleftrightarrow>
     (\<exists>net i e. entry_in cfgs net i e \<and> k = ctr_id e \<and> vs = entry_ips e)"
  unfolding in_updates entry_in_def by (auto simp: ip_updates_def)

lemma entry_in_membership_updates:
  "(k, n) \<in> set (concat (map membership_updates cfgs)) \<longleftrightarrow> member_of cfgs k n"
  unfolding in_updates entry_in_def member_of_def by (auto simp: membership_updates_def)

lemma entry_in_name_updates:
  "((n, a), vs) \<in> set (concat (map name_updates cfgs)) \<longleftrightarrow>
     (\<exists>i e. entry_in cfgs n i e \<and> a \<in> set (ctr_aliases e) \<and> vs = entry_ips e)"
proof -
  have "((n, a), vs) \<in> set (name_updates (net, i, c)) \<longleftrightarrow>
      n = net \<and> (\<exists>e \<in> set (container_entry c). a \<in> set (ctr_aliases e) \<and> vs = entry_ips e)"
    for net i c by (auto simp: name_updates_def image_iff)
  then show ?thesis by (simp only: in_updates entry_in_def) blast
qed

lemma entry_in_reverse_updates:
  "((n, ip), as) \<in> set (concat (map reverse_updates cfgs)) \<longleftrightarrow>
     (\<exists>i e. entry_in cfgs n i e \<and> ip \<in> set (entry_ips e) \<and> as = ctr_aliases e)"
proof -
  have "((n, ip), as) \<in> set (reverse_updates (net, i, c)) \<longleftrightarrow>
      n = net \<and> (\<exists>e \<in> set (container_entry c). ip \<in> set (entry_ips e) \<and> as = ctr_aliases e)"
    for net i c by (auto simp: reverse_updates_def image_iff)
  then show ?thesis by (simp only: in_updates entry_in_def) blast
qed

lemma entry_in_ctr_dns_updates:
  "(ip, d) \<in> set (concat (map ctr_dns_updates cfgs)) \<longleftrightarrow>
     (\<exists>net e. entry_in cfgs net False e \<and> ip \<in> set (entry_ips e) \<and> d = ctr_dns_servers e)"
  unfolding in_updates entry_in_def
  by (auto simp: ctr_dns_updates_def split: if_splits)

lemma built_membership:
  "st_network_membership (built cfgs) k = None \<longleftrightarrow> \<not> (\<exists>n. member_of cfgs k n)"
  "set (or_default (st_network_membership (built cfgs) k)) = {n. member_of cfgs k n}"
  "distinct (or_default (st_network_membership (built cfgs) k))"
proof -
  let ?ups = "concat (map membership_updates cfgs)"
  have "st_network_membership (built cfgs) k = None \<longleftrightarrow>
      k \<notin> dom (st_network_membership (built cfgs))"
    by (simp add: domIff)
  also have "\<dots> \<longleftrightarrow> k \<notin> fst ` set ?ups"
    unfolding built_fields(1) note_networks_dom by simp
  also have "\<dots> \<longleftrightarrow> \<not> (\<exists>n. (k, n) \<in> set ?ups)" by force
  finally show "st_network_membership (built cfgs) k = None \<longleftrightarrow> \<not> (\<exists>n. member_of cfgs k n)"
    by (simp only: entry_in_membership_updates)
  show "set (or_default (st_network_membership (built cfgs) k)) = {n. member_of cfgs k n}"
    by (simp only: built_fields(1) note_networks_set entry_in_membership_updates) simp
  show "distinct (or_default (st_network_membership (built cfgs) k))"
    unfolding built_fields by (rule note_networks_distinct) simp
qed

section \<open>The networks of an address\<close>

lemma add_config_distinct:
  "distinct (map fst (st_container_ips st)) \<Longrightarrow> distinct (map fst (st_container_ips (add_config nc st)))"
  by (cases nc)
    (auto simp: add_config_def Let_def add_entry_fields
      fold_project_same [where F = st_container_ips and step = "add_listen_ip net" for net]
      intro!: fold_invariant_list [where P = "\<lambda>s. distinct (map fst (st_container_ips s))"])

lemma built_container_ips_distinct: "distinct (map fst (st_container_ips (built cfgs)))"
  unfolding built_def
  by (rule fold_invariant_list) (auto intro: add_config_distinct simp: initial_state_def)

lemma built_container_ips:
  "map_of (st_container_ips (built cfgs)) k = None \<longleftrightarrow> \<not> (\<exists>n. member_of cfgs k n)"
  "ip \<in> set (or_default (map_of (st_container_ips (built cfgs)) k)) \<longleftrightarrow> owns cfgs k ip"
proof -
  let ?ups = "concat (map ip_updates cfgs)"
  have "map_of (st_container_ips (built cfgs)) k = None \<longleftrightarrow> k \<notin> fst ` set ?ups"
    unfolding built_fields(2) flat.entries_fold by simp
  also have "\<dots> \<longleftrightarrow> \<not> (\<exists>vs. (k, vs) \<in> set ?ups)" by force
  also have "\<dots> \<longleftrightarrow> \<not> (\<exists>n. member_of cfgs k n)"
    unfolding entry_in_ip_updates member_of_def by blast
  finally show "map_of (st_container_ips (built cfgs)) k = None \<longleftrightarrow> \<not> (\<exists>n. member_of cfgs k n)" .
  have "ip \<in> set (or_default (map_of (st_container_ips (built cfgs)) k)) \<longleftrightarrow>
      (\<exists>vs. (k, vs) \<in> set ?ups \<and> ip \<in> set vs)"
    unfolding built_fields(2) flat.value_in_fold by simp
  also have "\<dots> \<longleftrightarrow> owns cfgs k ip"
    unfolding entry_in_ip_updates owns_def by blast
  finally show "ip \<in> set (or_default (map_of (st_container_ips (built cfgs)) k)) \<longleftrightarrow> owns cfgs k ip" .
qed

lemma built_container_ips_in:
  "(k, ips) \<in> set (st_container_ips (built cfgs)) \<longleftrightarrow> map_of (st_container_ips (built cfgs)) k = Some ips"
  using built_container_ips_distinct by (simp add: map_of_eq_Some_iff)

lemma build_ctrs_total:
  assumes "\<forall>k \<in> fst ` set container_ips. membership k \<noteq> None"
  shows "build_ctrs membership container_ips ctrs =
    Inr (pushes (concat (map (\<lambda>(k, ips). map (\<lambda>ip. (ip, the (membership k))) ips) container_ips)) ctrs)"
  using assms
proof (induction container_ips arbitrary: ctrs)
  case Nil
  then show ?case by simp
next
  case (Cons p container_ips)
  obtain k ips where p: "p = (k, ips)" by (cases p)
  with Cons.prems obtain s where s: "membership k = Some s" by auto
  have "fold (\<lambda>ip. map_push ip s) ips ctrs = pushes (map (\<lambda>ip. (ip, s)) ips) ctrs"
    by (induction ips arbitrary: ctrs) auto
  with Cons p s show ?case by simp
qed

text \<open>The map \<open>ip_mappings\<close> of the store, for a given order of iteration.\<close>

definition ctrs_of ::
  "((string \<times> ip_addr list) list \<Rightarrow> (string \<times> ip_addr list) list) \<Rightarrow> network_config list \<Rightarrow>
   (ip_addr \<rightharpoonup> string list)" where
  "ctrs_of order cfgs =
     pushes (concat (map (\<lambda>(k, ips). map (\<lambda>ip. (ip, the (st_network_membership (built cfgs) k))) ips)
       (order (st_container_ips (built cfgs))))) Map.empty"

lemma container_has_networks:
  assumes "hash_order order"
  shows "\<forall>k \<in> fst ` set (order (st_container_ips (built cfgs))).
    st_network_membership (built cfgs) k \<noteq> None"
proof
  fix k assume "k \<in> fst ` set (order (st_container_ips (built cfgs)))"
  then have "map_of (st_container_ips (built cfgs)) k \<noteq> None"
    using assms by (simp add: hash_order_set map_of_eq_None_iff)
  then show "st_network_membership (built cfgs) k \<noteq> None"
    unfolding built_container_ips built_membership .
qed

lemma build_ctrs_built:
  "hash_order order \<Longrightarrow>
     build_ctrs (st_network_membership (built cfgs)) (order (st_container_ips (built cfgs))) Map.empty =
     Inr (ctrs_of order cfgs)"
  unfolding ctrs_of_def by (rule build_ctrs_total) (rule container_has_networks)

lemma ctrs_of_updates:
  assumes "hash_order order"
  shows "(ip, ns) \<in> set (concat (map (\<lambda>(k, ips). map (\<lambda>ip. (ip, the (st_network_membership (built cfgs) k))) ips)
       (order (st_container_ips (built cfgs))))) \<longleftrightarrow>
     (\<exists>k. owns cfgs k ip \<and> st_network_membership (built cfgs) k = Some ns)"
proof -
  have "(\<exists>ips. (k, ips) \<in> set (order (st_container_ips (built cfgs))) \<and> ip \<in> set ips) \<longleftrightarrow> owns cfgs k ip" for k
    unfolding hash_order_set [OF assms] built_container_ips_in built_container_ips(2) [symmetric]
    by (cases "map_of (st_container_ips (built cfgs)) k") auto
  moreover have "st_network_membership (built cfgs) k \<noteq> None" if "owns cfgs k ip" for k
    using that unfolding built_membership owns_def member_of_def by blast
  moreover have "ns = the (st_network_membership (built cfgs) k) \<longleftrightarrow>
      st_network_membership (built cfgs) k = Some ns"
    if "st_network_membership (built cfgs) k \<noteq> None" for k using that by auto
  ultimately show ?thesis unfolding in_concat_pairs by metis
qed

lemma ctrs_of_None_iff:
  assumes "hash_order order"
  shows "ctrs_of order cfgs ip = None \<longleftrightarrow> \<not> (\<exists>k. owns cfgs k ip)"
proof -
  let ?ups = "concat (map (\<lambda>(k, ips). map (\<lambda>ip. (ip, the (st_network_membership (built cfgs) k))) ips)
       (order (st_container_ips (built cfgs))))"
  have "ctrs_of order cfgs ip = None \<longleftrightarrow> ip \<notin> fst ` set ?ups"
    unfolding ctrs_of_def flat.entries_fold by simp
  also have "\<dots> \<longleftrightarrow> \<not> (\<exists>ns. (ip, ns) \<in> set ?ups)" by (simp only: key_iff)
  also have "\<dots> \<longleftrightarrow> \<not> (\<exists>k. owns cfgs k ip)"
  proof -
    have "\<exists>ns. st_network_membership (built cfgs) k = Some ns" if "owns cfgs k ip" for k
      using that built_membership(1) [of cfgs k] unfolding owns_def member_of_def by blast
    then show ?thesis unfolding ctrs_of_updates [OF assms] by blast
  qed
  finally show ?thesis .
qed

lemma ctrs_of_mem:
  assumes "hash_order order"
  shows "net \<in> set (or_default (ctrs_of order cfgs ip)) \<longleftrightarrow>
    (\<exists>k. owns cfgs k ip \<and> member_of cfgs k net)"
proof -
  have "net \<in> set (or_default (ctrs_of order cfgs ip)) \<longleftrightarrow>
      (\<exists>ns. (\<exists>k. owns cfgs k ip \<and> st_network_membership (built cfgs) k = Some ns) \<and> net \<in> set ns)"
    unfolding ctrs_of_def flat.value_in_fold ctrs_of_updates [OF assms] by simp
  also have "\<dots> \<longleftrightarrow> (\<exists>k. owns cfgs k ip \<and> net \<in> set (or_default (st_network_membership (built cfgs) k)))"
    by (metis empty_iff empty_set not_None_eq or_default_simps)
  finally show ?thesis unfolding built_membership by blast
qed

end
