(* ===== verification/Config_Props.thy ===== *)
theory Config_Props
  imports Config_Spec
begin

text \<open>
  The properties of \<open>parse_configs\<close>: when it succeeds, and what the store it returns answers,
  against the specification of the theory Config_Spec.
\<close>

section \<open>Success and the store\<close>

lemma quiet_fields [simp]:
  "st_network_membership (quiet st) = st_network_membership st"
  "st_container_ips (quiet st) = st_container_ips st"
  "st_reverse (quiet st) = st_reverse st"
  "st_network_names (quiet st) = st_network_names st"
  "st_listen_ips_4 (quiet st) = st_listen_ips_4 st"
  "st_listen_ips_6 (quiet st) = st_listen_ips_6 st"
  "st_ctr_dns_server (quiet st) = st_ctr_dns_server st"
  "st_network_dns_server (quiet st) = st_network_dns_server st"
  "st_network_is_internal (quiet st) = st_network_is_internal st"
  by (simp_all add: relog_def)

definition store_of ::
  "((string \<times> ip_addr list) list \<Rightarrow> (string \<times> ip_addr list) list) \<Rightarrow> network_config list \<Rightarrow>
   string \<Rightarrow> dns_backend \<times> listen_ips" where
  "store_of order cfgs domain =
     (let st = built cfgs in
      (backend_new (ctrs_of order cfgs) (st_network_names st) (st_reverse st) (st_ctr_dns_server st)
         (st_network_dns_server st) (st_network_is_internal st) domain,
       (st_listen_ips_4 st, st_listen_ips_6 st)))"

lemma processed_fields:
  assumes "process_files uni configs initial_state = (st, None)"
  shows "st_network_membership st = st_network_membership (built (config_files uni configs))"
    "st_container_ips st = st_container_ips (built (config_files uni configs))"
    "st_reverse st = st_reverse (built (config_files uni configs))"
    "st_network_names st = st_network_names (built (config_files uni configs))"
    "st_listen_ips_4 st = st_listen_ips_4 (built (config_files uni configs))"
    "st_listen_ips_6 st = st_listen_ips_6 (built (config_files uni configs))"
    "st_ctr_dns_server st = st_ctr_dns_server (built (config_files uni configs))"
    "st_network_dns_server st = st_network_dns_server (built (config_files uni configs))"
    "st_network_is_internal st = st_network_is_internal (built (config_files uni configs))"
proof -
  have "quiet initial_state = initial_state" by (simp add: relog_def initial_state_def)
  with process_files_quiet [OF assms] have eq: "built (config_files uni configs) = quiet st"
    by (simp add: built_def)
  show "st_network_membership st = st_network_membership (built (config_files uni configs))"
    "st_container_ips st = st_container_ips (built (config_files uni configs))"
    "st_reverse st = st_reverse (built (config_files uni configs))"
    "st_network_names st = st_network_names (built (config_files uni configs))"
    "st_listen_ips_4 st = st_listen_ips_4 (built (config_files uni configs))"
    "st_listen_ips_6 st = st_listen_ips_6 (built (config_files uni configs))"
    "st_ctr_dns_server st = st_ctr_dns_server (built (config_files uni configs))"
    "st_network_dns_server st = st_network_dns_server (built (config_files uni configs))"
    "st_network_is_internal st = st_network_is_internal (built (config_files uni configs))"
    unfolding eq by simp_all
qed

lemma parse_configs_processed:
  assumes "hash_order order" and "process_files uni configs initial_state = (st, None)"
  shows "parse_configs uni order dir (Inr True) (Inr configs) domain =
    (st_log st, Inr (store_of order (config_files uni configs) domain))"
  using processed_fields [OF assms(2)] build_ctrs_built [OF assms(1)]
  by (simp add: parse_configs_def assms(2) store_of_def Let_def)

lemma parse_configs_ok:
  assumes "hash_order order"
    and "parse_configs uni order dir is_dir (Inr configs) domain = (log, Inr result)"
  shows "result = store_of order (config_files uni configs) domain"
proof -
  have dir: "is_dir = Inr True"
    using assms(2) by (auto simp: parse_configs_def split: sum.splits bool.splits)
  obtain st e where st: "process_files uni configs initial_state = (st, e)" by fastforce
  have "e = None"
    using assms(2) by (auto simp: parse_configs_def dir st split: option.splits)
  with st have "process_files uni configs initial_state = (st, None)" by simp
  from parse_configs_processed [OF assms(1) this, of dir domain] assms(2) dir
  show ?thesis by simp
qed

text \<open>Every file has a name, and it is UTF-8.\<close>

definition names_readable :: "(io_error + dir_entry) list \<Rightarrow> bool" where
  "names_readable configs \<longleftrightarrow>
     list_all (\<lambda>c. case c of Inl e \<Rightarrow> True
       | Inr cfg \<Rightarrow> (case file_name cfg of None \<Rightarrow> False | Some s \<Rightarrow> utf8_valid s)) configs"

lemma process_files_total:
  "names_readable configs \<Longrightarrow> \<exists>st'. process_files uni configs st = (st', None)"
proof (induction configs arbitrary: st)
  case Nil
  then show ?case by simp
next
  case (Cons c configs)
  then have rest: "names_readable configs" by (simp add: names_readable_def)
  show ?case
  proof (cases c)
    case (Inl e)
    with Cons.IH [OF rest] show ?thesis by simp
  next
    case (Inr cfg)
    with Cons.prems obtain s where "file_name cfg = Some s" "utf8_valid s"
      by (auto simp: names_readable_def split: option.splits)
    then have "\<exists>st'. process_file uni cfg st = (st', None)"
      by (auto simp: process_file_def split: sum.splits prod.splits)
    with Inr Cons.IH [OF rest] show ?thesis by auto
  qed
qed

section \<open>Loading never fails because of a file\<close>

definition bad_file :: dir_entry where
  "bad_file = \<lparr>path_display = ''d/bad'', file_name = Some ''bad'', name_lossy = ''bad'',
     contents = Inr short_file\<rparr>"

definition sample_dir :: "(io_error + dir_entry) list" where
  "sample_dir =
     [Inr \<lparr>path_display = ''d/podman'', file_name = Some ''podman'', name_lossy = ''podman'',
        contents = Inr sample_file\<rparr>,
      Inr \<lparr>path_display = ''d/db%int'', file_name = Some ''db%int'', name_lossy = ''db%int'',
        contents = Inr (''10.90.0.1'' @ [CHR 0x0A] @ ''77aa01 10.90.0.2  DB'')\<rparr>,
      Inr bad_file,
      Inr \<lparr>path_display = ''d/aardvark.pid'', file_name = Some ''aardvark.pid'',
        name_lossy = ''aardvark.pid'', contents = Inr ''4711''\<rparr>]"

definition db_entry :: ctr_entry where
  "db_entry = \<lparr>ctr_id = ''77aa01'', ctr_v4 = Some [Ipv4 10 90 0 2], ctr_v6 = None,
     ctr_aliases = [''db''], ctr_dns_servers = None\<rparr>"

definition db_config :: parsed_network_config where
  "db_config = \<lparr>network_bind_ip = [V4 (Ipv4 10 90 0 1)], container_entry = [db_entry],
     network_dnsservers = []\<rparr>"

definition sample_cfgs :: "network_config list" where
  "sample_cfgs = [(''podman'', False, sample_config), (''db'', True, db_config)]"

lemma sample_names: "names_readable sample_dir"
  by code_simp

lemma sample_config_files: "config_files id sample_dir = sample_cfgs"
  by code_simp

text \<open>A directory that can be listed and whose files have UTF-8 names is always loaded,
  whatever the files contain: a malformed or unreadable file is skipped, and the internal
  consistency check on container IDs never fails.\<close>

theorem parse_configs_succeeds:
  assumes "hash_order order" and "names_readable configs"
  shows "\<exists>log result. parse_configs uni order dir (Inr True) (Inr configs) domain = (log, Inr result)"
  using process_files_total [OF assms(2)] parse_configs_processed [OF assms(1)] by blast

theorem parse_configs_succeeds_witness:
  "\<exists>log result. parse_configs id rev ''d'' (Inr True) (Inr sample_dir) ''.dns.podman'' = (log, Inr result)"
  by (rule parse_configs_succeeds [OF hash_order_rev sample_names])

text \<open>C35: A file that does not parse has no effect on the others: with or without it, the store
  and the listen addresses are the same.\<close>

theorem bad_file_is_skipped:
  assumes "hash_order order" and "names_readable (pre @ Inr cfg # post)"
    and "parse_config uni (path_display cfg) (contents cfg) = Inl e"
  shows "snd (parse_configs uni order dir (Inr True) (Inr (pre @ Inr cfg # post)) domain) =
    snd (parse_configs uni order dir (Inr True) (Inr (pre @ post)) domain)"
proof -
  have "config_files uni (pre @ Inr cfg # post) = config_files uni (pre @ post)"
    using assms(3) by (simp add: config_files_def List.map_filter_def config_of_file_def)
  moreover have "names_readable (pre @ post)"
    using assms(2) by (simp add: names_readable_def)
  ultimately show ?thesis
    using process_files_total [OF assms(2)] process_files_total [of "pre @ post"]
      parse_configs_processed [OF assms(1)] by (metis snd_conv)
qed

theorem bad_file_is_skipped_witness:
  "snd (parse_configs id rev ''d'' (Inr True) (Inr sample_dir) ''.dns.podman'') =
   snd (parse_configs id rev ''d'' (Inr True)
     (Inr (take 2 sample_dir @ drop 3 sample_dir)) ''.dns.podman'')"
proof -
  let ?pre = "take 2 sample_dir" and ?post = "drop 3 sample_dir"
  have split: "?pre @ Inr bad_file # ?post = sample_dir"
    by (simp add: sample_dir_def)
  have "\<not> (case parse_config id (path_display bad_file) (contents bad_file) of
      Inl _ \<Rightarrow> False | Inr _ \<Rightarrow> True)"
    by code_simp
  then obtain e where bad: "parse_config id (path_display bad_file) (contents bad_file) = Inl e"
    by (auto split: sum.splits)
  have "names_readable (?pre @ Inr bad_file # ?post)"
    unfolding split by (rule sample_names)
  from bad_file_is_skipped [OF hash_order_rev this bad, of "''d''" "''.dns.podman''"]
  show ?thesis unfolding split .
qed

section \<open>What the store answers\<close>

lemma backend_new_fields [simp]:
  "ip_mappings (backend_new a b c d e f domain) = a"
  "name_mappings (backend_new a b c d e f domain) = b"
  "reverse_mappings (backend_new a b c d e f domain) = c"
  "ctr_dns_server (backend_new a b c d e f domain) = d"
  "network_dns_server (backend_new a b c d e f domain) = e"
  "network_is_internal (backend_new a b c d e f domain) = f"
  by (simp_all add: backend_new_def Let_def)

lemma store_fields:
  assumes "store_of order cfgs domain = (be, l4, l6)"
  shows "ip_mappings be = ctrs_of order cfgs"
    "name_mappings be = st_network_names (built cfgs)"
    "reverse_mappings be = st_reverse (built cfgs)"
    "ctr_dns_server be = st_ctr_dns_server (built cfgs)"
    "network_dns_server be = st_network_dns_server (built cfgs)"
    "network_is_internal be = st_network_is_internal (built cfgs)"
    "l4 = st_listen_ips_4 (built cfgs)" "l6 = st_listen_ips_6 (built cfgs)"
  using assms by (auto simp: store_of_def Let_def)

lemma store_networks:
  assumes "hash_order order" and "store_of order cfgs domain = (be, l4, l6)"
  shows "net \<in> set (requester_nets be requester listen_net) \<longleftrightarrow> may_see cfgs requester listen_net net"
  using ctrs_of_None_iff [OF assms(1), of cfgs requester] ctrs_of_mem [OF assms(1), of net cfgs requester]
  by (auto simp: requester_nets_def may_see_def store_fields [OF assms(2)] split: option.splits)

lemma store_names:
  assumes "store_of order cfgs domain = (be, l4, l6)"
  shows "ip \<in> set (or_default (nested_get (name_mappings be) (net, name))) \<longleftrightarrow> named cfgs net name ip"
proof -
  have "ip \<in> set (or_default (nested_get (name_mappings be) (net, name))) \<longleftrightarrow>
      (\<exists>vs. ((net, name), vs) \<in> set (concat (map name_updates cfgs)) \<and> ip \<in> set vs)"
    unfolding store_fields [OF assms] built_fields(4) flat.value_in_fold by simp
  then show ?thesis unfolding entry_in_name_updates named_def by blast
qed

lemma store_lookup:
  assumes "hash_order order" and "store_of order cfgs domain = (be, l4, l6)"
  shows "ip \<in> set (or_default (lookup uni be requester listen_net q)) \<longleftrightarrow>
    (\<exists>net. may_see cfgs requester listen_net net \<and>
      named cfgs net (lookup_name uni (search_domain be) q) ip)"
proof -
  have "set (or_default (lookup uni be requester listen_net q)) =
      set (visible_addrs be (requester_nets be requester listen_net)
        (lookup_name uni (search_domain be) q))"
    by (simp add: lookup_visible Let_def)
  then show ?thesis
    using store_networks [OF assms] store_names [OF assms(2)] by (auto simp: visible_addrs_def)
qed

lemma sample_loaded:
  assumes "parse_configs id rev ''d'' (Inr True) (Inr sample_dir) ''.dns.podman'' = (log, Inr (be, l4, l6))"
  shows "store_of rev sample_cfgs ''.dns.podman'' = (be, l4, l6)"
  using parse_configs_ok [OF hash_order_rev assms] by (simp add: sample_config_files)

lemma store_search_domain:
  "store_of order cfgs domain = (be, l4, l6) \<Longrightarrow>
     search_domain be = search_domain (backend_new Map.empty Map.empty Map.empty Map.empty Map.empty Map.empty domain)"
  by (auto simp: store_of_def Let_def backend_new_def)

lemma entry_in_sample:
  "entry_in sample_cfgs net i e \<longleftrightarrow>
     net = ''podman'' \<and> \<not> i \<and> e = sample_entry \<or> net = ''db'' \<and> i \<and> e = db_entry"
proof -
  have "container_entry sample_config = [sample_entry]" "container_entry db_config = [db_entry]"
    by (simp_all add: sample_config_def db_config_def)
  then show ?thesis
    by (simp add: entry_in_def sample_cfgs_def conj_disj_distribR ex_disj_distrib)
qed

lemma sample_entries:
  "(\<exists>i e. entry_in sample_cfgs net i e \<and> P i e) \<longleftrightarrow>
     net = ''podman'' \<and> P False sample_entry \<or> net = ''db'' \<and> P True db_entry"
  unfolding entry_in_sample by (simp add: ex_bool_eq conj_disj_distribR ex_disj_distrib disj_commute)

lemma sample_entry_fields:
  "ctr_id sample_entry = ''68fb29''" "entry_ips sample_entry = [V4 (Ipv4 10 88 0 2)]"
  "ctr_aliases sample_entry = [''ctr1'', ''ctra'']"
  "ctr_id db_entry = ''77aa01''" "entry_ips db_entry = [V4 (Ipv4 10 90 0 2)]"
  "ctr_aliases db_entry = [''db'']"
  by (simp_all add: entry_ips_def sample_entry_def db_entry_def)

lemma sample_relations:
  "owns sample_cfgs k ip \<longleftrightarrow>
     k = ''68fb29'' \<and> ip = V4 (Ipv4 10 88 0 2) \<or> k = ''77aa01'' \<and> ip = V4 (Ipv4 10 90 0 2)"
  "member_of sample_cfgs k net \<longleftrightarrow>
     k = ''68fb29'' \<and> net = ''podman'' \<or> k = ''77aa01'' \<and> net = ''db''"
  "named sample_cfgs net name ip \<longleftrightarrow>
     net = ''podman'' \<and> (name = ''ctr1'' \<or> name = ''ctra'') \<and> ip = V4 (Ipv4 10 88 0 2) \<or>
     net = ''db'' \<and> name = ''db'' \<and> ip = V4 (Ipv4 10 90 0 2)"
  unfolding owns_def member_of_def named_def sample_entries sample_entry_fields
  by (simp_all add: ex_disj_distrib conj_disj_distribL eq_commute conj_ac)

lemma sample_load_exists:
  "\<exists>log be l4 l6. parse_configs id rev ''d'' (Inr True) (Inr sample_dir) ''.dns.podman'' =
     (log, Inr (be, l4, l6))"
  using parse_configs_processed [OF hash_order_rev] process_files_total [OF sample_names]
  by (metis prod.collapse)

text \<open>C7: Name resolution end to end, sound and complete: after loading a directory, a lookup
  returns an address exactly when some container entry of a network the requester may see lists
  that address under the (normalised) name.  A requester that owns an address of some container
  sees the networks of that container and nothing else; an unknown requester sees the network
  the server listens for.  So no name of a network a container is not a member of is ever
  resolved for it.\<close>

theorem lookup_implements_spec:
  assumes "hash_order order"
    and "parse_configs uni order dir is_dir (Inr configs) domain = (log, Inr (be, l4, l6))"
  shows "ip \<in> set (or_default (lookup uni be requester listen_net q)) \<longleftrightarrow>
    (\<exists>net. may_see (config_files uni configs) requester listen_net net \<and>
      named (config_files uni configs) net (lookup_name uni (search_domain be) q) ip)"
  using store_lookup [OF assms(1) parse_configs_ok [OF assms, symmetric]] .

theorem lookup_implements_spec_witness:
  "\<exists>log be l4 l6.
     parse_configs id rev ''d'' (Inr True) (Inr sample_dir) ''.dns.podman'' = (log, Inr (be, l4, l6)) \<and>
     V4 (Ipv4 10 90 0 2) \<notin> set (or_default (lookup id be (V4 (Ipv4 10 88 0 2)) ''db'' ''db'')) \<and>
     V4 (Ipv4 10 88 0 2) \<in> set (or_default (lookup id be (V4 (Ipv4 10 88 0 2)) ''db'' ''CTR1.dns.podman.''))"
proof -
  obtain log be l4 l6 where load: "parse_configs id rev ''d'' (Inr True) (Inr sample_dir) ''.dns.podman'' =
      (log, Inr (be, l4, l6))"
    using sample_load_exists by blast
  have dom: "search_domain be = ''.dns.podman.''"
    using store_search_domain [OF sample_loaded [OF load]] by (simp add: backend_new_def)
  have name: "lookup_name id ''.dns.podman.'' ''CTR1.dns.podman.'' = ''ctr1''"
    "lookup_name id ''.dns.podman.'' ''db'' = ''db''" by code_simp+
  note spec = lookup_implements_spec [OF hash_order_rev load, unfolded sample_config_files dom]
  have "V4 (Ipv4 10 90 0 2) \<notin> set (or_default (lookup id be (V4 (Ipv4 10 88 0 2)) ''db'' ''db''))"
    unfolding spec name by (simp add: may_see_def sample_relations)
  moreover have "V4 (Ipv4 10 88 0 2) \<in>
      set (or_default (lookup id be (V4 (Ipv4 10 88 0 2)) ''db'' ''CTR1.dns.podman.''))"
    unfolding spec name by (simp add: may_see_def sample_relations)
  ultimately show ?thesis using load by blast
qed

text \<open>C34: The order in which the directory is listed, and the order in which the hash map of
  container addresses is iterated, do not matter: two loads of the same files answer every
  lookup with the same set of addresses.\<close>

theorem lookup_order_independent:
  assumes "hash_order order" "hash_order order'" and "set configs = set configs'"
    and "parse_configs uni order dir is_dir (Inr configs) domain = (log, Inr (be, l4, l6))"
    and "parse_configs uni order' dir' is_dir' (Inr configs') domain = (log', Inr (be', l4', l6'))"
  shows "set (or_default (lookup uni be requester listen_net q)) =
    set (or_default (lookup uni be' requester listen_net q))"
proof -
  note loads = parse_configs_ok [OF assms(1,4), symmetric] parse_configs_ok [OF assms(2,5), symmetric]
  have "set (config_files uni configs) = set (config_files uni configs')"
    using assms(3) by (simp add: config_files_def List.map_filter_def set_filter)
  then have entries: "entry_in (config_files uni configs) = entry_in (config_files uni configs')"
    by (intro ext) (simp add: entry_in_def)
  have "may_see (config_files uni configs) = may_see (config_files uni configs')"
    "named (config_files uni configs) = named (config_files uni configs')"
    unfolding fun_eq_iff may_see_def named_def owns_def member_of_def entries by simp_all
  then show ?thesis
    using store_lookup [OF assms(1) loads(1)] store_lookup [OF assms(2) loads(2)]
      store_search_domain [OF loads(1)] store_search_domain [OF loads(2)] by auto
qed

theorem lookup_order_independent_witness:
  "\<exists>be be'. (\<exists>log l. parse_configs id rev ''d'' (Inr True) (Inr sample_dir) ''.dns.podman'' =
       (log, Inr (be, l))) \<and>
     (\<exists>log l. parse_configs id (\<lambda>xs. xs) ''d'' (Inr True) (Inr (rev sample_dir)) ''.dns.podman'' =
       (log, Inr (be', l))) \<and>
     set (or_default (lookup id be (V4 (Ipv4 10 88 0 2)) ''podman'' ''ctra'')) =
     set (or_default (lookup id be' (V4 (Ipv4 10 88 0 2)) ''podman'' ''ctra''))"
proof -
  obtain log be l4 l6 where 1: "parse_configs id rev ''d'' (Inr True) (Inr sample_dir) ''.dns.podman'' =
      (log, Inr (be, l4, l6))"
    using sample_load_exists by blast
  have "names_readable (rev sample_dir)" using sample_names by (simp add: names_readable_def list_all_iff)
  from process_files_total [OF this] obtain log' be' l4' l6' where
    2: "parse_configs id (\<lambda>xs. xs) ''d'' (Inr True) (Inr (rev sample_dir)) ''.dns.podman'' =
      (log', Inr (be', l4', l6'))"
    using parse_configs_processed [OF hash_order_id] by (metis prod.collapse)
  show ?thesis
    using 1 2 lookup_order_independent [OF hash_order_rev hash_order_id _ 1 2] by (metis set_rev)
qed

section \<open>Reverse lookups\<close>

lemma store_reverse:
  assumes "store_of order cfgs domain = (be, l4, l6)"
  shows "nested_get (reverse_mappings be) (net, ip) \<noteq> None \<longleftrightarrow>
      (\<exists>i e. entry_in cfgs net i e \<and> ip \<in> set (entry_ips e))"
    and "a \<in> set (or_default (nested_get (reverse_mappings be) (net, ip))) \<longleftrightarrow> named cfgs net a ip"
proof -
  let ?ups = "concat (map reverse_updates cfgs)"
  have "nested_get (reverse_mappings be) (net, ip) \<noteq> None \<longleftrightarrow> (\<exists>as. ((net, ip), as) \<in> set ?ups)"
    unfolding store_fields [OF assms] built_fields(3) flat.entries_fold key_iff [symmetric] by simp
  then show "nested_get (reverse_mappings be) (net, ip) \<noteq> None \<longleftrightarrow>
      (\<exists>i e. entry_in cfgs net i e \<and> ip \<in> set (entry_ips e))"
    unfolding entry_in_reverse_updates by blast
  have "a \<in> set (or_default (nested_get (reverse_mappings be) (net, ip))) \<longleftrightarrow>
      (\<exists>as. ((net, ip), as) \<in> set ?ups \<and> a \<in> set as)"
    unfolding store_fields [OF assms] built_fields(3) flat.value_in_fold by simp
  then show "a \<in> set (or_default (nested_get (reverse_mappings be) (net, ip))) \<longleftrightarrow> named cfgs net a ip"
    unfolding entry_in_reverse_updates named_def by blast
qed

lemma reverse_lookup_Some:
  "reverse_lookup be requester ip = Some names \<Longrightarrow>
     \<exists>net \<in> set (requester_nets be requester n). nested_get (reverse_mappings be) (net, ip) = Some names"
  by (auto simp: reverse_lookup_def requester_nets_def first_reverse_Some_iff split: option.splits)

lemma reverse_lookup_None_iff:
  "reverse_lookup be requester ip = None \<longleftrightarrow>
     (\<forall>net \<in> set (or_default (ip_mappings be requester)).
        nested_get (reverse_mappings be) (net, ip) = None)"
  by (auto simp: reverse_lookup_def first_reverse_None_iff split: option.splits)

text \<open>C31: Reverse lookups are complete and isolated: an address has names for a requester exactly
  when a container that owns the requester's address shares a network with a container entry
  holding the address; an unknown requester never gets a reverse answer.\<close>

theorem reverse_lookup_exists_iff:
  assumes "hash_order order"
    and "parse_configs uni order dir is_dir (Inr configs) domain = (log, Inr (be, l4, l6))"
  shows "reverse_lookup be requester ip \<noteq> None \<longleftrightarrow>
    (\<exists>k net. owns (config_files uni configs) k requester \<and>
       member_of (config_files uni configs) k net \<and>
       (\<exists>i e. entry_in (config_files uni configs) net i e \<and> ip \<in> set (entry_ips e)))"
proof -
  note load = parse_configs_ok [OF assms, symmetric]
  have "reverse_lookup be requester ip \<noteq> None \<longleftrightarrow>
      (\<exists>net \<in> set (or_default (ctrs_of order (config_files uni configs) requester)).
         nested_get (reverse_mappings be) (net, ip) \<noteq> None)"
    unfolding reverse_lookup_None_iff store_fields(1) [OF load] by simp
  then show ?thesis
    unfolding store_reverse(1) [OF load] Bex_def ctrs_of_mem [OF assms(1)] by blast
qed

theorem reverse_lookup_exists_iff_witness:
  "\<exists>log be l4 l6.
     parse_configs id rev ''d'' (Inr True) (Inr sample_dir) ''.dns.podman'' = (log, Inr (be, l4, l6)) \<and>
     reverse_lookup be (V4 (Ipv4 10 88 0 2)) (V4 (Ipv4 10 88 0 2)) \<noteq> None \<and>
     \<not> reverse_lookup be (V4 (Ipv4 10 88 0 2)) (V4 (Ipv4 10 90 0 2)) \<noteq> None"
proof -
  obtain log be l4 l6 where load: "parse_configs id rev ''d'' (Inr True) (Inr sample_dir) ''.dns.podman'' =
      (log, Inr (be, l4, l6))"
    using sample_load_exists by blast
  note spec = reverse_lookup_exists_iff [OF hash_order_rev load, unfolded sample_config_files
      sample_relations sample_entries sample_entry_fields]
  have "reverse_lookup be (V4 (Ipv4 10 88 0 2)) (V4 (Ipv4 10 88 0 2)) \<noteq> None"
    unfolding spec by simp
  moreover have "\<not> reverse_lookup be (V4 (Ipv4 10 88 0 2)) (V4 (Ipv4 10 90 0 2)) \<noteq> None"
    unfolding spec by simp
  ultimately show ?thesis using load by blast
qed

text \<open>C32: Forward and reverse lookups agree: let a reverse lookup return a name for an address; then
  every query of the same requester that normalises to this name (lower-cased, without the final
  dot and the search domain) is answered with that address among others.  A returned name that
  is not in this normal form itself, such as an alias that ends in a dot, need not resolve when
  it is asked for as it stands.\<close>

theorem reverse_then_forward:
  assumes "hash_order order"
    and "parse_configs uni order dir is_dir (Inr configs) domain = (log, Inr (be, l4, l6))"
    and "reverse_lookup be requester ip = Some names" and "a \<in> set names"
    and "lookup_name uni (search_domain be) q = a"
  shows "ip \<in> set (or_default (lookup uni be requester listen_net q))"
proof -
  note load = parse_configs_ok [OF assms(1,2), symmetric]
  obtain net where net: "net \<in> set (requester_nets be requester listen_net)"
    and "nested_get (reverse_mappings be) (net, ip) = Some names"
    using reverse_lookup_Some [OF assms(3)] by blast
  with assms(4) have "a \<in> set (or_default (nested_get (reverse_mappings be) (net, ip)))" by simp
  then have "named (config_files uni configs) net a ip" unfolding store_reverse(2) [OF load] .
  with net show ?thesis
    unfolding store_lookup [OF assms(1) load] store_networks [OF assms(1) load] assms(5) by blast
qed

lemma sample_networks:
  assumes "store_of rev sample_cfgs ''.dns.podman'' = (be, l4, l6)"
  obtains nets where "ip_mappings be (V4 (Ipv4 10 88 0 2)) = Some nets" "set nets = {''podman''}"
proof -
  let ?ip = "V4 (Ipv4 10 88 0 2)"
  have "ctrs_of rev sample_cfgs ?ip \<noteq> None"
    unfolding ctrs_of_None_iff [OF hash_order_rev] sample_relations by simp
  then obtain nets where nets: "ip_mappings be ?ip = Some nets"
    unfolding store_fields(1) [OF assms] by auto
  have "net \<in> set nets \<longleftrightarrow> net = ''podman''" for net
    using ctrs_of_mem [OF hash_order_rev, of net sample_cfgs ?ip] nets
    unfolding store_fields(1) [OF assms] sample_relations by simp
  then have "set nets = {''podman''}" by blast
  with nets show ?thesis by (rule that)
qed

theorem reverse_then_forward_witness:
  "\<exists>log be l4 l6 names.
     parse_configs id rev ''d'' (Inr True) (Inr sample_dir) ''.dns.podman'' = (log, Inr (be, l4, l6)) \<and>
     reverse_lookup be (V4 (Ipv4 10 88 0 2)) (V4 (Ipv4 10 88 0 2)) = Some names \<and> ''ctra'' \<in> set names \<and>
     V4 (Ipv4 10 88 0 2) \<in>
       set (or_default (lookup id be (V4 (Ipv4 10 88 0 2)) ''podman'' ''CTRA.dns.podman.''))"
proof -
  let ?ip = "V4 (Ipv4 10 88 0 2)"
  obtain log be l4 l6 where load: "parse_configs id rev ''d'' (Inr True) (Inr sample_dir) ''.dns.podman'' =
      (log, Inr (be, l4, l6))"
    using sample_load_exists by blast
  note store = sample_loaded [OF load]
  obtain nets where nets: "ip_mappings be ?ip = Some nets" "set nets = {''podman''}"
    using sample_networks [OF store] .
  have hit: "nested_get (reverse_mappings be) (''podman'', ?ip) \<noteq> None"
    unfolding store_reverse(1) [OF store] sample_entries by (simp add: sample_entry_fields)
  then have "reverse_lookup be ?ip ?ip \<noteq> None"
    unfolding reverse_lookup_None_iff using nets by simp
  then obtain names where names: "reverse_lookup be ?ip ?ip = Some names" by blast
  then have "nested_get (reverse_mappings be) (''podman'', ?ip) = Some names"
    using reverse_lookup_Some [OF names, of "[]"] nets by (simp add: requester_nets_def)
  then have mem: "''ctra'' \<in> set names"
    using store_reverse(2) [OF store, of "''ctra''" "''podman''" ?ip] by (simp add: sample_relations)
  have dom: "search_domain be = ''.dns.podman.''"
    using store_search_domain [OF store] by (simp add: backend_new_def)
  have "lookup_name id (search_domain be) ''CTRA.dns.podman.'' = ''ctra''" unfolding dom by code_simp
  from reverse_then_forward [OF hash_order_rev load names mem this] load names mem
  show ?thesis by blast
qed

section \<open>Internal networks\<close>

lemma built_flag: "st_network_is_internal (built cfgs) = network_flag cfgs"
proof -
  have "map_of (rev (concat (map internal_updates cfgs))) net = network_flag cfgs net" for net
  proof (induction cfgs net rule: network_flag.induct)
    case (2 n i c cfgs net)
    have "map_of (rev (map (\<lambda>e. (n, i)) es)) net = (if n = net \<and> es \<noteq> [] then Some i else None)"
      for es :: "ctr_entry list"
      by (induction es) (auto simp: map_add_def split: option.split)
    then have "map_of (rev (internal_updates (n, i, c))) net =
        (if n = net \<and> container_entry c \<noteq> [] then Some i else None)"
      by (simp add: internal_updates_def)
    with 2 show ?case by (auto simp: map_add_def split: option.split)
  qed simp
  then show ?thesis unfolding built_fields by blast
qed

lemma network_flag_entry: "network_flag cfgs net = Some i \<Longrightarrow> \<exists>e. entry_in cfgs net i e"
proof (induction cfgs net rule: network_flag.induct)
  case (2 n j c cfgs net)
  then show ?case
    by (cases "container_entry c") (fastforce simp: entry_in_def split: option.splits if_splits)+
qed simp

lemma network_flag_known: "entry_in cfgs net i e \<Longrightarrow> network_flag cfgs net \<noteq> None"
proof (induction cfgs net rule: network_flag.induct)
  case (2 n j c cfgs net)
  show ?case
  proof (cases "entry_in cfgs net i e")
    case False
    with 2(2) have "n = net" "container_entry c \<noteq> []" by (auto simp: entry_in_def)
    then show ?thesis by (simp split: option.split)
  qed (use 2(1) in auto)
qed (simp add: entry_in_def)

lemma store_ctr_is_internal:
  assumes "hash_order order" "store_of order cfgs domain = (be, l4, l6)"
  shows "ctr_is_internal be r \<longleftrightarrow> internal_only cfgs r"
proof (cases "ctrs_of order cfgs r")
  case None
  then have "\<not> (\<exists>k. owns cfgs k r)" unfolding ctrs_of_None_iff [OF assms(1)] .
  with None show ?thesis
    by (auto simp: ctr_is_internal_def internal_only_def store_fields [OF assms(2)])
next
  case (Some nets)
  then have known: "\<exists>k. owns cfgs k r" using ctrs_of_None_iff [OF assms(1), of cfgs r] by simp
  have "net \<in> set nets \<longleftrightarrow> (\<exists>k. owns cfgs k r \<and> member_of cfgs k net)" for net
    using ctrs_of_mem [OF assms(1), of net cfgs r] Some by simp
  then show ?thesis
    using known by (auto simp: ctr_is_internal_def internal_only_def store_fields [OF assms(2)] Some
        all_internal_iff built_flag)
qed

text \<open>The last file of a network decides.\<close>

lemma last_file_flag:
  assumes "container_entry c \<noteq> []" and "list_all (\<lambda>(n, i, c'). n \<noteq> net) after"
  shows "network_flag (before @ (net, i, c) # after) net = Some i"
proof -
  have none: "network_flag after net = None"
    using assms(2) by (induction after net rule: network_flag.induct) auto
  show ?thesis
    by (induction before) (auto simp: none assms(1))
qed

text \<open>
  When no network is configured both as internal and as not internal, any entry of a network
  tells its flag.
\<close>

definition flags_agree :: "network_config list \<Rightarrow> bool" where
  "flags_agree cfgs \<longleftrightarrow>
     (\<forall>net i i' c c'. (net, i, c) \<in> set cfgs \<and> (net, i', c') \<in> set cfgs \<longrightarrow> i = i')"

lemma flags_agreeD:
  "flags_agree cfgs \<Longrightarrow> entry_in cfgs net i e \<Longrightarrow> (net, i', c) \<in> set cfgs \<Longrightarrow> i' = i"
  unfolding flags_agree_def entry_in_def by blast

lemma agreed_flag: "flags_agree cfgs \<Longrightarrow> entry_in cfgs net i e \<Longrightarrow> network_flag cfgs net = Some i"
  using network_flag_known [of cfgs net i e] network_flag_entry [of cfgs net] flags_agreeD [of cfgs net i e]
  unfolding entry_in_def by blast

lemma internal_only_agreed:
  assumes "flags_agree cfgs"
  shows "internal_only cfgs ip \<longleftrightarrow> (\<exists>k. owns cfgs k ip) \<and>
    \<not> (\<exists>k net e. owns cfgs k ip \<and> entry_in cfgs net False e \<and> ctr_id e = k)"
proof -
  have "(\<exists>i. entry_in cfgs net i e) \<and> network_flag cfgs net = Some False \<longleftrightarrow> entry_in cfgs net False e"
    for net e
    using agreed_flag [OF assms, of net _ e] by (metis (full_types) option.inject)
  then show ?thesis unfolding internal_only_def member_of_def by blast
qed

text \<open>C28: A requester is treated as internal exactly when it is known and every network of every
  container that owns its address counts as internal.  A network counts as internal by its
  last file that was read and has a container: no assumption is made that the files agree.\<close>

theorem ctr_is_internal_spec:
  assumes "hash_order order"
    and "parse_configs uni order dir is_dir (Inr configs) domain = (log, Inr (be, l4, l6))"
  shows "ctr_is_internal be r \<longleftrightarrow> (\<exists>k. owns (config_files uni configs) k r) \<and>
    \<not> (\<exists>k net. owns (config_files uni configs) k r \<and> member_of (config_files uni configs) k net \<and>
         network_flag (config_files uni configs) net = Some False)"
  unfolding internal_only_def [symmetric]
  by (rule store_ctr_is_internal [OF assms(1) parse_configs_ok [OF assms(1,2), symmetric]])

lemma sample_flags [simp]:
  "network_flag sample_cfgs net =
     (if net = ''db'' then Some True else if net = ''podman'' then Some False else None)"
  by (simp add: sample_cfgs_def sample_config_def db_config_def)

lemma sample_internal_only: "internal_only sample_cfgs ip \<longleftrightarrow> ip = V4 (Ipv4 10 90 0 2)"
  unfolding internal_only_def sample_relations
  by (simp add: conj_disj_distribL conj_disj_distribR ex_disj_distrib) auto

theorem ctr_is_internal_spec_witness:
  "\<exists>log be l4 l6.
     parse_configs id rev ''d'' (Inr True) (Inr sample_dir) ''.dns.podman'' = (log, Inr (be, l4, l6)) \<and>
     ctr_is_internal be (V4 (Ipv4 10 90 0 2)) \<and> \<not> ctr_is_internal be (V4 (Ipv4 10 88 0 2))"
proof -
  obtain log be l4 l6 where load: "parse_configs id rev ''d'' (Inr True) (Inr sample_dir) ''.dns.podman'' =
      (log, Inr (be, l4, l6))"
    using sample_load_exists by blast
  note spec = ctr_is_internal_spec [OF hash_order_rev load, unfolded sample_config_files
      internal_only_def [symmetric] sample_internal_only]
  have "ctr_is_internal be (V4 (Ipv4 10 90 0 2))" "\<not> ctr_is_internal be (V4 (Ipv4 10 88 0 2))"
    unfolding spec by simp_all
  with load show ?thesis by blast
qed

text \<open>Internal networks bring no upstream server: for a requester that is treated as internal
  there is neither a container-specific DNS server nor a network-scoped resolver, whatever the
  files of its networks list.\<close>

theorem internal_has_no_resolvers:
  assumes "hash_order order"
    and "parse_configs uni order dir is_dir (Inr configs) domain = (log, Inr (be, l4, l6))"
    and "flags_agree (config_files uni configs)" and "ctr_is_internal be r"
  shows "ctr_dns_server be r = None \<and> get_network_scoped_resolvers be r = Some []"
proof
  let ?cfgs = "config_files uni configs"
  note load = parse_configs_ok [OF assms(1,2), symmetric]
  note fields = store_fields [OF load]
  from assms(4) have no_external: "\<not> (\<exists>k net. owns ?cfgs k r \<and> (\<exists>e. entry_in ?cfgs net False e \<and> ctr_id e = k))"
    and known: "\<exists>k. owns ?cfgs k r"
    unfolding store_ctr_is_internal [OF assms(1) load] internal_only_agreed [OF assms(3)] by blast+
  show "ctr_dns_server be r = None"
  proof (rule ccontr)
    assume "ctr_dns_server be r \<noteq> None"
    then obtain d where "(r, d) \<in> set (concat (map ctr_dns_updates ?cfgs))"
      unfolding fields built_fields using map_of_SomeD by fastforce
    then have "\<exists>net e. entry_in ?cfgs net False e \<and> r \<in> set (entry_ips e)"
      unfolding entry_in_ctr_dns_updates by blast
    with no_external show False unfolding owns_def by blast
  qed
  obtain nets where nets: "ctrs_of order ?cfgs r = Some nets"
    using known ctrs_of_None_iff [OF assms(1), of ?cfgs r] by auto
  have "or_default (network_dns_server be net) = []" if "net \<in> set nets" for net
  proof -
    from that obtain k where k: "owns ?cfgs k r" "member_of ?cfgs k net"
      using ctrs_of_mem [OF assms(1), of net ?cfgs r] nets by auto
    then obtain i e where e: "entry_in ?cfgs net i e" "ctr_id e = k" unfolding member_of_def by blast
    have "i = True"
    proof (rule ccontr)
      assume "i \<noteq> True"
      then have "i = False" by simp
      with e k no_external show False by blast
    qed
    with e have flag: "i' = True" if "(net, i', c) \<in> set ?cfgs" for i' c
      using flags_agreeD [OF assms(3) e(1) that] by simp
    have "vs = []" if "map_of (rev (concat (map network_dns_updates ?cfgs))) net = Some vs" for vs
    proof -
      from map_of_SomeD [OF that] have "(net, vs) \<in> set (concat (map network_dns_updates ?cfgs))"
        by simp
      then show ?thesis
        unfolding in_updates by (auto simp: network_dns_updates_def dest: flag split: if_splits)
    qed
    then show ?thesis unfolding fields built_fields by (auto simp: or_default_def split: option.split)
  qed
  then show "get_network_scoped_resolvers be r = Some []"
    by (simp add: get_network_scoped_resolvers_def fields(1) nets resolvers_of_nets_concat)
qed

theorem internal_has_no_resolvers_witness:
  "\<exists>log be l4 l6.
     parse_configs id rev ''d'' (Inr True) (Inr sample_dir) ''.dns.podman'' = (log, Inr (be, l4, l6)) \<and>
     ctr_dns_server be (V4 (Ipv4 10 90 0 2)) = None \<and>
     get_network_scoped_resolvers be (V4 (Ipv4 10 90 0 2)) = Some []"
proof -
  obtain log be l4 l6 where load: "parse_configs id rev ''d'' (Inr True) (Inr sample_dir) ''.dns.podman'' =
      (log, Inr (be, l4, l6))"
    using sample_load_exists by blast
  have flags: "flags_agree (config_files id sample_dir)"
    unfolding sample_config_files flags_agree_def sample_cfgs_def by auto
  have "ctr_is_internal be (V4 (Ipv4 10 90 0 2))"
    unfolding store_ctr_is_internal [OF hash_order_rev sample_loaded [OF load]] sample_internal_only ..
  from internal_has_no_resolvers [OF hash_order_rev load flags this] load show ?thesis by blast
qed

section \<open>Listen addresses\<close>

definition listen4_updates :: "network_config \<Rightarrow> (string \<times> ipv4 list) list" where
  "listen4_updates nc = (case nc of (net, internal, c) \<Rightarrow>
     concat (map (\<lambda>ip. case ip of V4 a \<Rightarrow> [(net, [a])] | V6 b \<Rightarrow> []) (network_bind_ip c)))"

definition listen6_updates :: "network_config \<Rightarrow> (string \<times> ipv6 list) list" where
  "listen6_updates nc = (case nc of (net, internal, c) \<Rightarrow>
     concat (map (\<lambda>ip. case ip of V4 a \<Rightarrow> [] | V6 b \<Rightarrow> [(net, [b])]) (network_bind_ip c)))"

lemma add_config_listen:
  "map_of (st_listen_ips_4 (add_config nc st)) = pushes (listen4_updates nc) (map_of (st_listen_ips_4 st))"
  "map_of (st_listen_ips_6 (add_config nc st)) = pushes (listen6_updates nc) (map_of (st_listen_ips_6 st))"
proof -
  obtain net i c where nc: "nc = (net, i, c)" by (cases nc) auto
  have step: "map_of (st_listen_ips_4 (add_listen_ip net ip s)) =
      pushes (case ip of V4 a \<Rightarrow> [(net, [a])] | V6 b \<Rightarrow> []) (map_of (st_listen_ips_4 s))"
    "map_of (st_listen_ips_6 (add_listen_ip net ip s)) =
      pushes (case ip of V4 a \<Rightarrow> [] | V6 b \<Rightarrow> [(net, [b])]) (map_of (st_listen_ips_6 s))" for ip s
    by (auto simp: add_listen_ip_def listed.entries_push_map split: ip_addr.split)
  show "map_of (st_listen_ips_4 (add_config nc st)) = pushes (listen4_updates nc) (map_of (st_listen_ips_4 st))"
    by (simp add: nc add_config_def Let_def listen4_updates_def
        fold_project_same [where F = st_listen_ips_4, OF add_entry_fields(7)]
        fold_project [where F = "\<lambda>s. map_of (st_listen_ips_4 s)", OF step(1)])
  show "map_of (st_listen_ips_6 (add_config nc st)) = pushes (listen6_updates nc) (map_of (st_listen_ips_6 st))"
    by (simp add: nc add_config_def Let_def listen6_updates_def
        fold_project_same [where F = st_listen_ips_6, OF add_entry_fields(8)]
        fold_project [where F = "\<lambda>s. map_of (st_listen_ips_6 s)", OF step(2)])
qed

lemma built_listen:
  "a \<in> set (or_default (map_of (st_listen_ips_4 (built cfgs)) net)) \<longleftrightarrow>
     (\<exists>i c. (net, i, c) \<in> set cfgs \<and> V4 a \<in> set (network_bind_ip c))"
  "b \<in> set (or_default (map_of (st_listen_ips_6 (built cfgs)) net)) \<longleftrightarrow>
     (\<exists>i c. (net, i, c) \<in> set cfgs \<and> V6 b \<in> set (network_bind_ip c))"
proof -
  have ups: "(net, as) \<in> set (listen4_updates (n, i, c)) \<longleftrightarrow>
      n = net \<and> (\<exists>a. as = [a] \<and> V4 a \<in> set (network_bind_ip c))"
    "(net, bs) \<in> set (listen6_updates (n, i, c)) \<longleftrightarrow>
      n = net \<and> (\<exists>b. bs = [b] \<and> V6 b \<in> set (network_bind_ip c))" for as bs n i c
    by (force simp: listen4_updates_def listen6_updates_def split: ip_addr.splits)+
  have maps: "map_of (st_listen_ips_4 (built cfgs)) = pushes (concat (map listen4_updates cfgs)) Map.empty"
    "map_of (st_listen_ips_6 (built cfgs)) = pushes (concat (map listen6_updates cfgs)) Map.empty"
    unfolding built_def
    by (simp_all add: initial_state_def
        fold_project [where F = "\<lambda>s. map_of (st_listen_ips_4 s)", OF add_config_listen(1)]
        fold_project [where F = "\<lambda>s. map_of (st_listen_ips_6 s)", OF add_config_listen(2)])
  have "a \<in> set (or_default (map_of (st_listen_ips_4 (built cfgs)) net)) \<longleftrightarrow>
      (\<exists>as. (net, as) \<in> set (concat (map listen4_updates cfgs)) \<and> a \<in> set as)"
    unfolding maps flat.value_in_fold by simp
  then show "a \<in> set (or_default (map_of (st_listen_ips_4 (built cfgs)) net)) \<longleftrightarrow>
     (\<exists>i c. (net, i, c) \<in> set cfgs \<and> V4 a \<in> set (network_bind_ip c))"
    unfolding in_updates ups by fastforce
  have "b \<in> set (or_default (map_of (st_listen_ips_6 (built cfgs)) net)) \<longleftrightarrow>
      (\<exists>bs. (net, bs) \<in> set (concat (map listen6_updates cfgs)) \<and> b \<in> set bs)"
    unfolding maps flat.value_in_fold by simp
  then show "b \<in> set (or_default (map_of (st_listen_ips_6 (built cfgs)) net)) \<longleftrightarrow>
     (\<exists>i c. (net, i, c) \<in> set cfgs \<and> V6 b \<in> set (network_bind_ip c))"
    unfolding in_updates ups by fastforce
qed

lemma add_config_listen_distinct:
  "distinct (map fst (st_listen_ips_4 st)) \<and> distinct (map fst (st_listen_ips_6 st)) \<Longrightarrow>
   distinct (map fst (st_listen_ips_4 (add_config nc st))) \<and>
   distinct (map fst (st_listen_ips_6 (add_config nc st)))" (is "?D st \<Longrightarrow> _")
proof -
  assume st: "?D st"
  obtain net i c where nc: "nc = (net, i, c)" by (cases nc) auto
  have "?D (fold (add_listen_ip net) (network_bind_ip c)
      (add_network_dns net i (network_dnsservers c) st))"
    by (rule fold_invariant_list) (auto simp: st add_listen_ip_def split: ip_addr.split)
  then show ?thesis
    by (simp add: nc add_config_def Let_def
        fold_project_same [where F = st_listen_ips_4, OF add_entry_fields(7)]
        fold_project_same [where F = st_listen_ips_6, OF add_entry_fields(8)])
qed

lemma built_listen_distinct:
  "distinct (map fst (st_listen_ips_4 (built cfgs)))" "distinct (map fst (st_listen_ips_6 (built cfgs)))"
proof -
  have "distinct (map fst (st_listen_ips_4 (built cfgs))) \<and> distinct (map fst (st_listen_ips_6 (built cfgs)))"
    unfolding built_def
    by (rule fold_invariant_list) (use add_config_listen_distinct in \<open>auto simp: initial_state_def\<close>)
  then show "distinct (map fst (st_listen_ips_4 (built cfgs)))"
    "distinct (map fst (st_listen_ips_6 (built cfgs)))" by simp_all
qed

text \<open>C33: The server is told to listen exactly on the addresses the configuration files bind,
  under the name of their network, IPv4 and IPv6 apart.\<close>

theorem listen_addresses_spec:
  assumes "hash_order order"
    and "parse_configs uni order dir is_dir (Inr configs) domain = (log, Inr (be, l4, l6))"
  shows "(a \<in> set (or_default (map_of l4 net)) \<longleftrightarrow>
      (\<exists>i c. (net, i, c) \<in> set (config_files uni configs) \<and> V4 a \<in> set (network_bind_ip c))) \<and>
    (b \<in> set (or_default (map_of l6 net)) \<longleftrightarrow>
      (\<exists>i c. (net, i, c) \<in> set (config_files uni configs) \<and> V6 b \<in> set (network_bind_ip c))) \<and>
    distinct (map fst l4) \<and> distinct (map fst l6)"
  unfolding store_fields(7,8) [OF parse_configs_ok [OF assms, symmetric]] built_listen
  by (simp add: built_listen_distinct)

theorem listen_addresses_spec_witness:
  "\<exists>log be l4 l6.
     parse_configs id rev ''d'' (Inr True) (Inr sample_dir) ''.dns.podman'' = (log, Inr (be, l4, l6)) \<and>
     Ipv4 10 90 0 1 \<in> set (or_default (map_of l4 ''db'')) \<and>
     Ipv4 10 90 0 1 \<notin> set (or_default (map_of l4 ''podman''))"
proof -
  obtain log be l4 l6 where load: "parse_configs id rev ''d'' (Inr True) (Inr sample_dir) ''.dns.podman'' =
      (log, Inr (be, l4, l6))"
    using sample_load_exists by blast
  note spec = listen_addresses_spec [OF hash_order_rev load, unfolded sample_config_files]
  have "Ipv4 10 90 0 1 \<in> set (or_default (map_of l4 ''db''))"
    "Ipv4 10 90 0 1 \<notin> set (or_default (map_of l4 ''podman''))"
    using spec [of "Ipv4 10 90 0 1" "''db''"] spec [of "Ipv4 10 90 0 1" "''podman''"]
    by (simp_all add: sample_cfgs_def sample_config_def db_config_def ex_disj_distrib ex_bool_eq)
  with load show ?thesis by blast
qed

section \<open>Which errors are logged\<close>

text \<open>
  What a file adds to the log does not depend on what is in the log already, and nothing else
  depends on the log.
\<close>

lemma add_config_log: "st_log (add_config nc st) = st_log st"
proof -
  have "relog (st_log st) (add_config nc st) = add_config nc st"
    unfolding relog_add_config by (simp add: relog_def)
  then have "st_log (relog (st_log st) (add_config nc st)) = st_log (add_config nc st)" by simp
  then show ?thesis by (simp add: relog_def)
qed

lemma process_file_log:
  "\<exists>st' d e. \<forall>l. process_file uni cfg (relog l st) = (relog (l @ d) st', e)"
proof -
  consider (kept) e where "\<And>st. process_file uni cfg st = (st, e)"
    | (read_error) e where "\<And>st. process_file uni cfg st = (log_read_error cfg e st, None)"
    | (added) nc where "\<And>st. process_file uni cfg st = (add_config nc st, None)"
  proof (cases "file_name cfg = Some AARDVARK_PID_FILE")
    case True
    then show ?thesis by (intro kept [of None]) (simp add: process_file_def)
  next
    case False
    note proc = process_file_def if_not_P [OF False]
    show ?thesis
    proof (cases "parse_config uni (path_display cfg) (contents cfg)")
      case (Inl e)
      then show ?thesis by (intro read_error [of e]) (simp add: proc)
    next
      case (Inr c)
      show ?thesis
      proof (cases "file_name cfg")
        case None
        then show ?thesis using Inr by (intro kept) (simp add: proc)
      next
        case (Some s)
        show ?thesis
        proof (cases "utf8_valid s")
          case True
          obtain net i where "network_of_file s = (net, i)" by fastforce
          then show ?thesis using Inr Some True False by (intro added [of "(net, i, c)"]) (simp add: proc)
        next
          case no_text: False
          then show ?thesis using Inr Some False by (intro kept) (simp add: proc)
        qed
      qed
    qed
  qed
  then show ?thesis
  proof cases
    case kept
    then show ?thesis by (intro exI [of _ st] exI [of _ "[]"] exI [of _ e]) simp
  next
    case (read_error e)
    have "\<exists>d. \<forall>l. log_read_error cfg e (relog l st) = relog (l @ d) st"
      by (intro exI [of _ "case e of
            IOError io \<Rightarrow> if kind io \<noteq> NotFound then [] else [Log_Read_Error (path_display cfg) e]
          | _ \<Rightarrow> [Log_Read_Error (path_display cfg) e]"])
        (simp add: log_read_error_def relog_def split: aardvark_error.split)
    with read_error show ?thesis by fastforce
  next
    case (added nc)
    have "process_file uni cfg (relog l st) = (relog (l @ []) (add_config nc st), None)" for l
      by (simp add: added relog_add_config)
    then show ?thesis by blast
  qed
qed

lemma process_files_log:
  "\<exists>st' d e. \<forall>l. process_files uni configs (relog l st) = (relog (l @ d) st', e)"
proof (induction configs arbitrary: st)
  case Nil
  then show ?case by (intro exI [of _ st] exI [of _ "[]"] exI [of _ None]) simp
next
  case (Cons c configs)
  show ?case
  proof (cases c)
    case (Inl e)
    obtain st' d err where rest: "\<And>l. process_files uni configs (relog l st) = (relog (l @ d) st', err)"
      using Cons.IH by blast
    let ?d = "if kind e \<noteq> NotFound then [Log_List_Error e] else []"
    have "process_files uni (c # configs) (relog l st) = (relog (l @ ?d @ d) st', err)" for l
      using rest [of "l @ ?d"] by (simp add: Inl relog_def split: if_splits)
    then show ?thesis by blast
  next
    case (Inr cfg)
    obtain s d1 e1 where one: "\<And>l. process_file uni cfg (relog l st) = (relog (l @ d1) s, e1)"
      using process_file_log by blast
    obtain st' d err where rest: "\<And>l. process_files uni configs (relog l s) = (relog (l @ d) st', err)"
      using Cons.IH by blast
    show ?thesis
    proof (cases e1)
      case None
      then have "process_files uni (c # configs) (relog l st) = (relog (l @ d1 @ d) st', err)" for l
        using one rest [of "l @ d1"] by (simp add: Inr)
      then show ?thesis by blast
    next
      case (Some e)
      with one show ?thesis by (auto simp: Inr)
    qed
  qed
qed

lemma process_files_append:
  "process_files uni pre st = (st', None) \<Longrightarrow>
     process_files uni (pre @ post) st = process_files uni post st'"
proof (induction uni pre st rule: process_files.induct)
  case (3 uni cfg configs st)
  then show ?case by (auto split: prod.splits option.splits)
qed simp_all

text \<open>
  \<open>parse_configs\<close> without what it logs, from the state after its loop over the directory.
\<close>

lemma parse_configs_of_files:
  assumes "process_files uni configs initial_state = (relog l st, e)"
  shows "fst (parse_configs uni order dir (Inr True) (Inr configs) domain) = l"
    and "process_files uni configs' initial_state = (relog l' st, e) \<Longrightarrow>
      snd (parse_configs uni order dir (Inr True) (Inr configs') domain) =
      snd (parse_configs uni order dir (Inr True) (Inr configs) domain)"
  using assms by (auto simp: parse_configs_def relog_def split: option.split sum.split)

text \<open>C36: Of the files that cannot be read, a reload reports exactly those that were removed
  meanwhile: when reading one file fails with an I/O error, the load has the same result as
  without the file, and its log has one line more, at the place of the file, if the error is
  \<open>NotFound\<close>, and no line more for any other error (a permission problem, or a text that is not
  UTF-8).  The comment beside the guard asks for the opposite.  The file is not the pid file,
  and the files listed before it have UTF-8 names, else the load ends before it.\<close>

theorem unreadable_files_logged_iff_not_found:
  assumes "names_readable pre" and "read_to_string (contents cfg) = Inl io" and "file_name cfg \<noteq> Some AARDVARK_PID_FILE"
  shows "\<exists>log1 log2.
    fst (parse_configs uni order dir (Inr True) (Inr pre) domain) = log1 \<and>
    fst (parse_configs uni order dir (Inr True) (Inr (pre @ post)) domain) = log1 @ log2 \<and>
    fst (parse_configs uni order dir (Inr True) (Inr (pre @ Inr cfg # post)) domain) =
      log1 @ (if kind io = NotFound then [Log_Read_Error (path_display cfg) (IOError io)] else []) @ log2 \<and>
    snd (parse_configs uni order dir (Inr True) (Inr (pre @ Inr cfg # post)) domain) =
      snd (parse_configs uni order dir (Inr True) (Inr (pre @ post)) domain)"
proof -
  let ?line = "if kind io = NotFound then [Log_Read_Error (path_display cfg) (IOError io)] else []"
  have self: "st = relog (st_log st) st" for st by (simp add: relog_def)
  obtain st where st: "process_files uni pre initial_state = (st, None)"
    using process_files_total [OF assms(1)] by blast
  obtain st' d e where post: "\<And>l. process_files uni post (relog l st) = (relog (l @ d) st', e)"
    using process_files_log by blast
  have "process_files uni (Inr cfg # post) st = process_files uni post (relog (st_log st @ ?line) st)"
    using assms(2,3) by (simp add: process_file_def parse_config_def from_io_error_def
        log_read_error_def relog_def)
  then have with_file: "process_files uni (pre @ Inr cfg # post) initial_state =
      (relog (st_log st @ ?line @ d) st', e)"
    unfolding process_files_append [OF st] by (simp add: post)
  have without: "process_files uni (pre @ post) initial_state = (relog (st_log st @ d) st', e)"
    unfolding process_files_append [OF st] using post [of "st_log st"] self [of st] by simp
  have before: "process_files uni pre initial_state = (relog (st_log st) st, None)"
    using st self [of st] by simp
  show ?thesis
    using parse_configs_of_files(1) [OF before] parse_configs_of_files(1) [OF without]
      parse_configs_of_files(1) [OF with_file] parse_configs_of_files(2) [OF without with_file]
    by (intro exI [of _ "st_log st"] exI [of _ d]) simp
qed

definition unreadable_file :: "error_kind \<Rightarrow> dir_entry" where
  "unreadable_file k = \<lparr>path_display = ''d/web'', file_name = Some ''web'', name_lossy = ''web'',
     contents = Inl (Io_Error k ''failed'')\<rparr>"

theorem unreadable_files_logged_iff_not_found_witness:
  "fst (parse_configs id rev ''d'' (Inr True) (Inr [Inr (unreadable_file NotFound)]) ''.dns.podman'') =
     [Log_Read_Error ''d/web'' (IOError (Io_Error NotFound ''failed''))] \<and>
   fst (parse_configs id rev ''d'' (Inr True) (Inr [Inr (unreadable_file PermissionDenied)]) ''.dns.podman'') = []"
proof -
  have unreadable: "read_to_string (contents (unreadable_file k)) = Inl (Io_Error k ''failed'')"
    "file_name (unreadable_file k) \<noteq> Some AARDVARK_PID_FILE" "path_display (unreadable_file k) = ''d/web''" for k
    by (simp_all add: unreadable_file_def read_to_string_def AARDVARK_PID_FILE_def)
  have none: "names_readable []" by (simp add: names_readable_def)
  have empty: "fst (parse_configs id rev ''d'' (Inr True) (Inr []) ''.dns.podman'') = []"
    by (simp add: parse_configs_def initial_state_def)
  note spec = unreadable_files_logged_iff_not_found [OF none unreadable(1,2), where post = "[]", of id rev "''d''" "''.dns.podman''"]
  from spec [of NotFound] spec [of PermissionDenied] empty show ?thesis by (simp add: unreadable(3))
qed

end
