(* ===== verification/Threads.thy ===== *)
theory Threads
  imports Core_Loop Config_Props
begin

text \<open>
  The tasks of the server, \<open>stop_threads\<close>, \<open>stop_and_start_threads\<close> and \<open>start_dns_server\<close> of
  \<open>src/server/serve.rs\<close>.  \<open>ThreadHandleMap\<close> is an association list from a network name and a
  listen address to the task that serves it.  Binding a socket and awaiting a task are answered
  by the operating system and by tokio: arguments of the operations.
\<close>

section \<open>Tasks\<close>

text \<open>
  A task with its network and its socket address.  It is alive while its \<open>run\<close> has not
  returned; only then it holds its two sockets.
\<close>

record task =
  task_network :: string
  task_socket :: socket_addr
  task_alive :: bool

type_synonym 'ip thread_key = "string \<times> 'ip"
type_synonym 'ip handles = "('ip thread_key \<times> task) list"

definition held :: "'ip handles \<Rightarrow> socket_addr list" where
  "held h = map (task_socket \<circ> snd) (filter (task_alive \<circ> snd) h)"

text \<open>
  Binding: the addresses this process holds, the transport and the address to bind; the error,
  if any.  Awaiting: the error of tokio, or what the task returned.
\<close>

type_synonym bind_oracle = "socket_addr list \<Rightarrow> protocol \<Rightarrow> socket_addr \<Rightarrow> io_error option"
type_synonym await_oracle = "task \<Rightarrow> string + unit aardvark_result"

datatype server_log =
    Log_Config log_line
  | Log_Server_Error aardvark_error
  | Log_Task_Error string
  | Log_Pid_Removal io_error
  | Log_Reload_Failed aardvark_error
  | Log_Nameservers_Failed aardvark_error

section \<open>Stopping\<close>

text \<open>The loop that takes the handles out of the map; \<open>None\<close> is the panic of \<open>unwrap\<close>.\<close>

fun take_handles :: "'ip thread_key list \<Rightarrow> 'ip handles \<Rightarrow> ('ip handles \<times> task list) option" where
  "take_handles [] h = Some (h, [])"
| "take_handles (key # keys) h =
     (case map_of h key of
        None \<Rightarrow> None
      | Some t \<Rightarrow>
          (case take_handles keys (filter (\<lambda>p. fst p \<noteq> key) h) of
             None \<Rightarrow> None
           | Some (h', ts) \<Rightarrow> Some (h', t # ts)))"

definition await_log :: "await_oracle \<Rightarrow> task \<Rightarrow> server_log list" where
  "await_log await t =
     (case await t of
        Inr (Inr ()) \<Rightarrow> []
      | Inr (Inl e) \<Rightarrow> [Log_Server_Error e]
      | Inl e \<Rightarrow> [Log_Task_Error e])"

definition stop_threads ::
  "('ip thread_key list \<Rightarrow> 'ip thread_key list) \<Rightarrow> await_oracle \<Rightarrow> 'ip handles \<Rightarrow>
   'ip thread_key list option \<Rightarrow> ('ip handles \<times> server_log list) option" where
  "stop_threads order await thread_handles filter' =
     (let to_shut_down = (case filter' of Some ks \<Rightarrow> ks | None \<Rightarrow> order (map fst thread_handles))
      in case take_handles to_shut_down thread_handles of
           None \<Rightarrow> None
         | Some (h, ts) \<Rightarrow> Some (h, concat (map (await_log await) ts)))"

section \<open>Starting\<close>

definition start_dns_server ::
  "('n, 'r, 'x) hickory \<Rightarrow> (string \<Rightarrow> string) \<Rightarrow> string \<Rightarrow> io_error + socket_addr \<Rightarrow> dns_backend \<Rightarrow>
   bool \<Rightarrow> socket_addr list \<Rightarrow> run_event list \<Rightarrow>
   ('n, 'r, 'x) run_effect list \<times> unit aardvark_result option" where
  "start_dns_server H uni name local_addr be no_prox ns evs =
     (case run H uni (core_dns_new name be no_prox ns) local_addr evs of
        (effects, r) \<Rightarrow> (effects, map_option (\<lambda>r. wrap (\<lambda>e. e) r ''run dns server'') r))"

text \<open>Both listeners of an address, or the error of the one that cannot be bound.\<close>

definition bind_listeners :: "bind_oracle \<Rightarrow> socket_addr list \<Rightarrow> socket_addr \<Rightarrow> unit aardvark_result" where
  "bind_listeners bind_os in_use addr =
     (case bind_os in_use Udp addr of
        Some err \<Rightarrow>
          Inl (error_wrap (''failed to bind udp listener on '' @ show_socket addr) (from_io_error err))
      | None \<Rightarrow>
          (case bind_os in_use Tcp addr of
             Some err \<Rightarrow>
               Inl (error_wrap (''failed to bind tcp listener on '' @ show_socket addr) (from_io_error err))
           | None \<Rightarrow> Inr ()))"

definition new_task :: "('ip \<Rightarrow> ip_addr) \<Rightarrow> u16 \<Rightarrow> 'ip thread_key \<Rightarrow> task" where
  "new_task into_ip port k =
     \<lparr>task_network = fst k, task_socket = socket_new (into_ip (snd k)) port, task_alive = True\<rparr>"

text \<open>The loop over the listen addresses to start; \<open>others\<close> are the sockets of the other map.\<close>

fun start_threads ::
  "('ip \<Rightarrow> ip_addr) \<Rightarrow> u16 \<Rightarrow> bind_oracle \<Rightarrow> socket_addr list \<Rightarrow> 'ip thread_key list \<Rightarrow>
   'ip handles \<Rightarrow> aardvark_error list \<Rightarrow> 'ip handles \<times> aardvark_error list"
where
  "start_threads into_ip port bind_os others [] h errors = (h, errors)"
| "start_threads into_ip port bind_os others (k # to_start) h errors =
     (case bind_listeners bind_os (others @ held h) (socket_new (into_ip (snd k)) port) of
        Inl err \<Rightarrow> start_threads into_ip port bind_os others to_start h (errors_push errors err)
      | Inr _ \<Rightarrow>
          start_threads into_ip port bind_os others to_start
            (upsert k (\<lambda>_. new_task into_ip port k) h) errors)"

definition expected_threads :: "(string \<times> 'ip list) list \<Rightarrow> 'ip thread_key list" where
  "expected_threads listen_ips =
     remdups (concat (map (\<lambda>(net, ips). map (\<lambda>ip. (net, ip)) ips) listen_ips))"

definition stop_and_start_threads ::
  "('ip \<Rightarrow> ip_addr) \<Rightarrow> ('ip thread_key list \<Rightarrow> 'ip thread_key list) \<Rightarrow> await_oracle \<Rightarrow> u16 \<Rightarrow>
   bind_oracle \<Rightarrow> socket_addr list \<Rightarrow> (string \<times> 'ip list) list \<Rightarrow> 'ip handles \<Rightarrow>
   ('ip handles \<times> server_log list \<times> unit aardvark_result) option" where
  "stop_and_start_threads into_ip order await port bind_os others listen_ips thread_handles =
     (let expected = expected_threads listen_ips;
          to_shut_down = filter (\<lambda>k. k \<notin> set expected) (order (map fst thread_handles))
      in case stop_threads order await thread_handles (Some to_shut_down) of
           None \<Rightarrow> None
         | Some (h, log) \<Rightarrow>
             (let to_start = filter (\<lambda>k. map_of h k = None) (order expected);
                  (h', errors) = start_threads into_ip port bind_os others to_start h errors_new
              in Some (h', log, if errors_is_empty errors then Inr () else Inl (ErrorList errors))))"

section \<open>The interface of the address family\<close>

text \<open>
  The generic code works for an address type that converts to \<open>IpAddr\<close>; all it needs of the
  conversion is that different addresses stay different.
\<close>

locale listen_family =
  fixes into_ip :: "'ip \<Rightarrow> ip_addr"
  assumes into_ip_inject: "into_ip a = into_ip b \<Longrightarrow> a = b"
begin

lemma socket_inject: "socket_new (into_ip a) port = socket_new (into_ip b) port \<Longrightarrow> a = b"
  by (simp add: socket_new_inject into_ip_inject)

end


interpretation v6: listen_family V6
  by unfold_locales simp

lemma families_disjoint: "socket_new (V4 a) port \<noteq> socket_new (V6 b) port'"
  by simp

section \<open>Invariants of the map\<close>

definition handles_ok :: "('ip \<Rightarrow> ip_addr) \<Rightarrow> u16 \<Rightarrow> 'ip handles \<Rightarrow> bool" where
  "handles_ok into_ip port h \<longleftrightarrow> distinct (map fst h) \<and>
     (\<forall>net ip t. ((net, ip), t) \<in> set h \<longrightarrow>
        task_network t = net \<and> task_socket t = socket_new (into_ip ip) port)"

lemma handles_ok_Nil [simp]: "handles_ok into_ip port []"
  by (simp add: handles_ok_def)

lemma handles_ok_filter: "handles_ok into_ip port h \<Longrightarrow> handles_ok into_ip port (filter P h)"
  by (auto simp: handles_ok_def distinct_map_filter)

lemma filter_keys_take:
  assumes "distinct keys" "set keys \<subseteq> fst ` set h" "distinct (map fst h)"
  shows "\<exists>ts. take_handles keys h = Some (filter (\<lambda>p. fst p \<notin> set keys) h, ts)"
  using assms
proof (induction keys arbitrary: h)
  case Nil
  then show ?case by simp
next
  case (Cons k keys)
  then obtain t where t: "map_of h k = Some t" by (metis list.set_intros(1) map_of_eq_None_iff not_None_eq subset_iff)
  have "set keys \<subseteq> fst ` set (filter (\<lambda>p. fst p \<noteq> k) h)"
    using Cons.prems by (force simp: image_iff)
  with Cons.prems obtain ts where
    "take_handles keys (filter (\<lambda>p. fst p \<noteq> k) h) =
       Some (filter (\<lambda>p. fst p \<notin> set keys) (filter (\<lambda>p. fst p \<noteq> k) h), ts)"
    using Cons.IH [of "filter (\<lambda>p. fst p \<noteq> k) h"] by (auto simp: distinct_map_filter)
  with t show ?case by (auto simp: conj_commute)
qed

lemma stop_threads_some:
  assumes "distinct keys" "set keys \<subseteq> fst ` set h" "distinct (map fst h)"
  shows "\<exists>log. stop_threads order await h (Some keys) = Some (filter (\<lambda>p. fst p \<notin> set keys) h, log)"
  using filter_keys_take [OF assms] by (auto simp: stop_threads_def)

lemma stop_threads_all:
  assumes "hash_order order" "distinct (map fst h)"
  shows "\<exists>log. stop_threads order await h None = Some ([], log)"
proof -
  have keys: "set (order (map fst h)) = fst ` set h" "distinct (order (map fst h))"
    using assms by (simp_all add: hash_order_set hash_order_distinct)
  have "filter (\<lambda>p. fst p \<notin> set (order (map fst h))) h = []"
    unfolding keys by (auto simp: filter_empty_conv)
  then show ?thesis
    using filter_keys_take [of "order (map fst h)" h] keys assms(2)
    by (auto simp: stop_threads_def)
qed

text \<open>
  What the starting loop does: it appends a task for some of the keys and an error for each of
  the others.
\<close>

lemma upsert_fresh: "map_of h k = None \<Longrightarrow> upsert k f h = h @ [(k, f None)]"
  by (induction h) (auto split: if_splits)

lemma start_threads_result:
  assumes "distinct ks" and "\<forall>k \<in> set ks. map_of h k = None"
  shows "\<exists>started errs. start_threads into_ip port bind_os others ks h errors =
      (h @ map (\<lambda>k. (k, new_task into_ip port k)) started, errors @ errs) \<and>
    set started \<subseteq> set ks \<and> distinct started \<and> length started + length errs = length ks"
  using assms
proof (induction ks arbitrary: h errors)
  case Nil
  then show ?case by simp
next
  case (Cons k ks)
  from Cons.prems have k: "map_of h k = None" "k \<notin> set ks" "distinct ks" by auto
  show ?case
  proof (cases "bind_listeners bind_os (others @ held h) (socket_new (into_ip (snd k)) port)")
    case (Inl err)
    obtain started errs where "start_threads into_ip port bind_os others ks h (errors @ [err]) =
        (h @ map (\<lambda>k. (k, new_task into_ip port k)) started, (errors @ [err]) @ errs)"
      "set started \<subseteq> set ks" "distinct started" "length started + length errs = length ks"
      using Cons.IH [of h "errors @ [err]"] Cons.prems by auto
    with Inl show ?thesis
      by (intro exI [of _ started] exI [of _ "err # errs"]) (auto simp: errors_push_def)
  next
    case (Inr u)
    let ?h = "h @ [(k, new_task into_ip port k)]"
    have "\<forall>j \<in> set ks. map_of ?h j = None" using Cons.prems by (auto simp: map_add_def)
    then obtain started errs where "start_threads into_ip port bind_os others ks ?h errors =
        (?h @ map (\<lambda>k. (k, new_task into_ip port k)) started, errors @ errs)"
      "set started \<subseteq> set ks" "distinct started" "length started + length errs = length ks"
      using Cons.IH [of ?h errors] k(3) by auto
    with Inr k show ?thesis
      by (intro exI [of _ "k # started"] exI [of _ errs]) (auto simp: upsert_fresh)
  qed
qed

lemma held_append [simp]: "held (h @ h') = held h @ held h'"
  by (simp add: held_def)

lemma held_new [simp]: "held [(k, new_task into_ip port k)] = [socket_new (into_ip (snd k)) port]"
  by (simp add: held_def new_task_def)

text \<open>An operating system that only refuses addresses in use, and one that always refuses them.\<close>

definition bind_free :: "bind_oracle \<Rightarrow> bool" where
  "bind_free bind_os \<longleftrightarrow> (\<forall>in_use proto addr. addr \<notin> set in_use \<longrightarrow> bind_os in_use proto addr = None)"

definition bind_excludes :: "bind_oracle \<Rightarrow> bool" where
  "bind_excludes bind_os \<longleftrightarrow> (\<forall>in_use proto addr. addr \<in> set in_use \<longrightarrow> bind_os in_use proto addr \<noteq> None)"

lemma bind_listeners_free:
  "bind_free bind_os \<Longrightarrow> addr \<notin> set in_use \<Longrightarrow> bind_listeners bind_os in_use addr = Inr ()"
  by (simp add: bind_listeners_def bind_free_def)

lemma bind_listeners_excludes:
  "bind_excludes bind_os \<Longrightarrow> bind_listeners bind_os in_use addr = Inr () \<Longrightarrow> addr \<notin> set in_use"
  by (auto simp: bind_listeners_def bind_excludes_def split: option.splits)
    (metis option.distinct(1))

lemma start_threads_distinct:
  assumes "bind_excludes bind_os" and "distinct ks" "\<forall>k \<in> set ks. map_of h k = None"
    and "distinct (others @ held h)"
  shows "distinct (others @ held (fst (start_threads into_ip port bind_os others ks h errors)))"
  using assms(2-)
proof (induction ks arbitrary: h errors)
  case Nil
  then show ?case by simp
next
  case (Cons k ks)
  show ?case
  proof (cases "bind_listeners bind_os (others @ held h) (socket_new (into_ip (snd k)) port)")
    case (Inl err)
    with Cons show ?thesis by simp
  next
    case (Inr u)
    then have "socket_new (into_ip (snd k)) port \<notin> set (others @ held h)"
      by (intro bind_listeners_excludes [OF assms(1)]) simp
    moreover have "\<forall>j \<in> set ks. map_of (h @ [(k, new_task into_ip port k)]) j = None"
      using Cons.prems by (auto simp: map_add_def)
    ultimately show ?thesis
      using Cons.IH [of "h @ [(k, new_task into_ip port k)]" errors] Cons.prems Inr
      by (simp add: upsert_fresh)
  qed
qed

section \<open>One reload of a map\<close>

lemma expected_threads_set:
  "set (expected_threads listen_ips) = {(net, ip). \<exists>ips. (net, ips) \<in> set listen_ips \<and> ip \<in> set ips}"
  by (auto simp: expected_threads_def)

lemma expected_threads_distinct [simp]: "distinct (expected_threads listen_ips)"
  by (simp add: expected_threads_def)

text \<open>Stopping leaves the expected tasks, starting adds tasks for the missing ones.\<close>

definition kept_handles :: "(string \<times> 'ip list) list \<Rightarrow> 'ip handles \<Rightarrow> 'ip handles" where
  "kept_handles listen_ips h = filter (\<lambda>p. fst p \<in> set (expected_threads listen_ips)) h"

definition missing_threads ::
  "('ip thread_key list \<Rightarrow> 'ip thread_key list) \<Rightarrow> (string \<times> 'ip list) list \<Rightarrow> 'ip handles \<Rightarrow>
   'ip thread_key list" where
  "missing_threads order listen_ips h =
     filter (\<lambda>k. map_of (kept_handles listen_ips h) k = None) (order (expected_threads listen_ips))"

lemma stop_and_start_parts:
  assumes "hash_order order" and "distinct (map fst h)"
  shows "\<exists>log. stop_and_start_threads into_ip order await port bind_os others listen_ips h =
    (case start_threads into_ip port bind_os others (missing_threads order listen_ips h)
            (kept_handles listen_ips h) [] of
       (h', errors) \<Rightarrow> Some (h', log, if errors = [] then Inr () else Inl (ErrorList errors)))"
proof -
  let ?e = "set (expected_threads listen_ips)"
  let ?stop = "filter (\<lambda>k. k \<notin> ?e) (order (map fst h))"
  have keys: "set (order (map fst h)) = fst ` set h" "distinct (order (map fst h))"
    using assms by (simp_all add: hash_order_set hash_order_distinct)
  then obtain log where "stop_threads order await h (Some ?stop) =
      Some (filter (\<lambda>p. fst p \<notin> set ?stop) h, log)"
    using stop_threads_some [of ?stop h order await] assms(2) by auto
  moreover have "filter (\<lambda>p. fst p \<notin> set ?stop) h = kept_handles listen_ips h"
    unfolding kept_handles_def using keys(1) by (intro filter_cong) auto
  ultimately show ?thesis
    by (auto simp: stop_and_start_threads_def Let_def errors_defs missing_threads_def
        split: prod.split)
qed

lemma kept_keys: "fst ` set (kept_handles listen_ips h) = fst ` set h \<inter> set (expected_threads listen_ips)"
  by (force simp: kept_handles_def)

lemma missing_facts:
  assumes "hash_order order"
  shows "distinct (missing_threads order listen_ips h)"
    "set (missing_threads order listen_ips h) = set (expected_threads listen_ips) - fst ` set h"
    "\<forall>k \<in> set (missing_threads order listen_ips h). map_of (kept_handles listen_ips h) k = None"
  using assms kept_keys [of listen_ips h] unfolding missing_threads_def
  by (auto simp: hash_order_distinct hash_order_set map_of_eq_None_iff)

lemma map_of_kept:
  "k \<in> set (expected_threads listen_ips) \<Longrightarrow> map_of (kept_handles listen_ips h) k = map_of h k"
  unfolding kept_handles_def by (induction h) auto

lemma handles_ok_new:
  assumes "handles_ok into_ip port h" "distinct started" "\<forall>k \<in> set started. k \<notin> fst ` set h"
  shows "handles_ok into_ip port (h @ map (\<lambda>k. (k, new_task into_ip port k)) started)"
  using assms by (auto simp: handles_ok_def new_task_def comp_def)

lemma reload_facts:
  assumes "hash_order order" and "handles_ok into_ip port h"
  shows "\<exists>h' log r. stop_and_start_threads into_ip order await port bind_os others listen_ips h =
      Some (h', log, r) \<and> handles_ok into_ip port h' \<and>
    fst ` set h' \<subseteq> set (expected_threads listen_ips) \<and>
    list_all (\<lambda>k. k \<in> fst ` set h \<longrightarrow> map_of h' k = map_of h k) (expected_threads listen_ips) \<and>
    (case r of
       Inr _ \<Rightarrow> fst ` set h' = set (expected_threads listen_ips)
     | Inl e \<Rightarrow> \<exists>es. e = ErrorList es \<and>
         0 < length es \<and> length es = card (set (expected_threads listen_ips) - fst ` set h'))"
proof -
  let ?E = "set (expected_threads listen_ips)"
  let ?kept = "kept_handles listen_ips h" and ?missing = "missing_threads order listen_ips h"
  have dist: "distinct (map fst h)" using assms(2) by (simp add: handles_ok_def)
  note missing = missing_facts [OF assms(1), of listen_ips h]
  obtain started errs where run: "start_threads into_ip port bind_os others ?missing ?kept [] =
      (?kept @ map (\<lambda>k. (k, new_task into_ip port k)) started, errs)"
    and started: "set started \<subseteq> set ?missing" "distinct started"
      "length started + length errs = length ?missing"
    using start_threads_result [OF missing(1,3), of into_ip port bind_os others "[]"] by auto
  let ?h' = "?kept @ map (\<lambda>k. (k, new_task into_ip port k)) started"
  obtain log where result: "stop_and_start_threads into_ip order await port bind_os others listen_ips h =
      Some (?h', log, if errs = [] then Inr () else Inl (ErrorList errs))"
    using stop_and_start_parts [OF assms(1) dist, of into_ip await port bind_os others listen_ips] run
    by auto
  have keys: "fst ` set ?h' = (fst ` set h \<inter> ?E) \<union> set started"
    by (simp add: kept_keys image_Un image_image)
  have kept_ok: "handles_ok into_ip port ?kept"
    unfolding kept_handles_def by (rule handles_ok_filter [OF assms(2)])
  have ok: "handles_ok into_ip port ?h'"
    using started missing(2) by (intro handles_ok_new [OF kept_ok]) (auto simp: kept_keys)
  have same: "map_of ?h' k = map_of h k" if "k \<in> ?E" "k \<in> fst ` set h" for k
  proof -
    have "map_of ?kept k = map_of h k" by (rule map_of_kept [OF that(1)])
    with that(2) show ?thesis
      by (auto simp: map_add_def map_of_eq_None_iff split: option.split dest!: map_of_SomeD)
  qed
  have count: "card (?E - fst ` set ?h') = length errs"
  proof -
    have "?E - fst ` set ?h' = set ?missing - set started"
      unfolding keys missing(2) by blast
    moreover have "card (set ?missing - set started) = card (set ?missing) - card (set started)"
      using started(1) by (intro card_Diff_subset) simp_all
    moreover have "card (set ?missing) = length ?missing" "card (set started) = length started"
      using missing(1) started(2) by (simp_all only: distinct_card)
    ultimately show ?thesis using started(3) by simp
  qed
  have sub: "fst ` set ?h' \<subseteq> ?E" unfolding keys using started(1) missing(2) by blast
  have all: "fst ` set ?h' = ?E" if "errs = []"
  proof -
    from count that have "?E - fst ` set ?h' = {}" by (simp only: list.size card_0_eq finite_Diff finite_set)
    with sub show ?thesis by blast
  qed
  let ?r = "if errs = [] then Inr () else Inl (ErrorList errs)"
  have "case ?r of Inr _ \<Rightarrow> fst ` set ?h' = ?E
    | Inl e \<Rightarrow> \<exists>es. e = ErrorList es \<and> 0 < length es \<and> length es = card (?E - fst ` set ?h')"
    using all count by (cases "errs = []") simp_all
  moreover have "list_all (\<lambda>k. k \<in> fst ` set h \<longrightarrow> map_of ?h' k = map_of h k) (expected_threads listen_ips)"
    using same unfolding list_all_iff by blast
  ultimately show ?thesis
    using result ok sub by (intro exI [of _ ?h'] exI [of _ log] exI [of _ ?r] conjI) assumption+
qed

text \<open>C14: A reload of the tasks of one address family never panics (every handle taken out of the
  map is there), leaves no task for an address that is not configured, keeps the task of every
  address that still is, and reports one error for every configured address without a task:
  it succeeds exactly when all of them are served.\<close>

theorem reload_accounts_for_all:
  assumes "hash_order order" and "handles_ok into_ip port h"
  shows "\<exists>h' log r. stop_and_start_threads into_ip order await port bind_os others listen_ips h =
      Some (h', log, r) \<and> handles_ok into_ip port h' \<and>
    fst ` set h' \<subseteq> set (expected_threads listen_ips) \<and>
    list_all (\<lambda>k. k \<in> fst ` set h \<longrightarrow> map_of h' k = map_of h k) (expected_threads listen_ips) \<and>
    (case r of
       Inr _ \<Rightarrow> fst ` set h' = set (expected_threads listen_ips)
     | Inl e \<Rightarrow> \<exists>es. e = ErrorList es \<and>
         0 < length es \<and> length es = card (set (expected_threads listen_ips) - fst ` set h'))"
  by (rule reload_facts [OF assms])

context listen_family
begin

lemma start_threads_all:
  assumes "bind_free bind_os" and "distinct (map snd ks)" and "\<forall>k \<in> set ks. map_of h k = None"
    and "\<forall>k \<in> set ks. socket_new (into_ip (snd k)) port \<notin> set (others @ held h)"
  shows "start_threads into_ip port bind_os others ks h errors =
    (h @ map (\<lambda>k. (k, new_task into_ip port k)) ks, errors)"
  using assms(2-)
proof (induction ks arbitrary: h)
  case Nil
  then show ?case by simp
next
  case (Cons k ks)
  let ?h = "h @ [(k, new_task into_ip port k)]"
  have "bind_listeners bind_os (others @ held h) (socket_new (into_ip (snd k)) port) = Inr ()"
    using Cons.prems by (intro bind_listeners_free [OF assms(1)]) simp
  moreover have "start_threads into_ip port bind_os others ks ?h errors =
      (?h @ map (\<lambda>k. (k, new_task into_ip port k)) ks, errors)"
  proof (rule Cons.IH)
    show "distinct (map snd ks)" using Cons.prems by simp
    show "\<forall>j \<in> set ks. map_of ?h j = None" using Cons.prems by (force simp: map_add_def)
    show "\<forall>j \<in> set ks. socket_new (into_ip (snd j)) port \<notin> set (others @ held ?h)"
      using Cons.prems socket_inject by (force simp: image_iff)
  qed
  ultimately show ?case using Cons.prems by (simp add: upsert_fresh)
qed

lemma held_kept:
  assumes "handles_ok into_ip port h" "a \<in> set (held (kept_handles listen_ips h))"
  shows "\<exists>k \<in> set (expected_threads listen_ips) \<inter> fst ` set h. a = socket_new (into_ip (snd k)) port"
  using assms by (force simp: held_def kept_handles_def handles_ok_def)

lemma reload_converges:
  assumes "hash_order order" and "handles_ok into_ip port h" and "bind_free bind_os"
    and "inj_on snd (set (expected_threads listen_ips))"
    and others: "\<And>ip. socket_new (into_ip ip) port \<notin> set others"
  shows "\<exists>log. stop_and_start_threads into_ip order await port bind_os others listen_ips h =
    Some (kept_handles listen_ips h @
      map (\<lambda>k. (k, new_task into_ip port k)) (missing_threads order listen_ips h), log, Inr ())"
proof -
  let ?missing = "missing_threads order listen_ips h" and ?kept = "kept_handles listen_ips h"
  note missing = missing_facts [OF assms(1), of listen_ips h]
  have inj: "inj_on snd (set ?missing)"
    using assms(4) by (rule inj_on_subset) (auto simp: missing(2))
  have "start_threads into_ip port bind_os others ?missing ?kept [] =
      (?kept @ map (\<lambda>k. (k, new_task into_ip port k)) ?missing, [])"
  proof (rule start_threads_all [OF assms(3) _ missing(3)])
    show "distinct (map snd ?missing)" using inj missing(1) by (simp add: distinct_map)
    have "socket_new (into_ip (snd k)) port \<notin> set (held ?kept)" if "k \<in> set ?missing" for k
    proof
      assume "socket_new (into_ip (snd k)) port \<in> set (held ?kept)"
      from held_kept [OF assms(2) this] obtain j where j: "j \<in> set (expected_threads listen_ips)"
        "j \<in> fst ` set h" "socket_new (into_ip (snd k)) port = socket_new (into_ip (snd j)) port" by blast
      then have "snd k = snd j" using socket_inject by blast
      with j that have "k = j" using assms(4) missing(2) by (auto dest: inj_onD)
      with j that show False by (simp add: missing(2))
    qed
    with others show "\<forall>k \<in> set ?missing. socket_new (into_ip (snd k)) port \<notin> set (others @ held ?kept)"
      by simp
  qed
  with stop_and_start_parts [OF assms(1), of h into_ip await port bind_os others listen_ips] assms(2)
  show ?thesis by (auto simp: handles_ok_def)
qed

end


text \<open>The listen address 10.88.0.1 moves from network \<open>a\<close> to network \<open>b\<close>.\<close>

definition moved_handles :: "ipv4 handles" where
  "moved_handles = [((''a'', Ipv4 10 88 0 1), new_task V4 53 (''a'', Ipv4 10 88 0 1))]"

definition moved_ips :: "(string \<times> ipv4 list) list" where
  "moved_ips = [(''b'', [Ipv4 10 88 0 1])]"

definition strict_bind :: bind_oracle where
  "strict_bind in_use proto addr =
     (if addr \<in> set in_use then Some (Io_Error AddrInUse ''Address already in use'') else None)"

lemma strict_bind_ok: "bind_free strict_bind" "bind_excludes strict_bind"
  by (simp_all add: bind_free_def bind_excludes_def strict_bind_def)

lemma moved_handles_ok: "handles_ok V4 53 moved_handles"
  by (simp add: handles_ok_def moved_handles_def new_task_def)


theorem reload_accounts_for_all_witness:
  "\<exists>h' log r. stop_and_start_threads V4 rev (\<lambda>_. Inr (Inr ())) 53
      (\<lambda>_ _ _. Some (Io_Error PermissionDenied ''denied'')) [] moved_ips moved_handles =
      Some (h', log, r) \<and> fst ` set h' \<subseteq> {(''b'', Ipv4 10 88 0 1)} \<and> handles_ok V4 53 h'"
proof -
  have exp: "expected_threads moved_ips = [(''b'', Ipv4 10 88 0 1)]"
    by (simp add: expected_threads_def moved_ips_def)
  have "set (expected_threads moved_ips) = {(''b'', Ipv4 10 88 0 1)}" by (simp add: exp)
  with reload_accounts_for_all [OF hash_order_rev moved_handles_ok, of "\<lambda>_. Inr (Inr ())"
      "\<lambda>_ _ _. Some (Io_Error PermissionDenied ''denied'')" "[]" moved_ips]
  show ?thesis by (metis (no_types))
qed

lemma reload_sockets:
  assumes "hash_order order" and "handles_ok into_ip port h" and "bind_excludes bind_os"
    and "distinct (others @ held h)"
    and "stop_and_start_threads into_ip order await port bind_os others listen_ips h =
      Some (h', log, r)"
  shows "distinct (others @ held h')"
proof -
  have dist: "distinct (map fst h)" using assms(2) by (simp add: handles_ok_def)
  have sub: "set (held (kept_handles listen_ips h)) \<subseteq> set (held h)"
    by (auto simp: held_def kept_handles_def)
  have "distinct (held (filter P h))" if "distinct (held h)" for P
  proof -
    have "filter (task_alive \<circ> snd) (filter P h) = filter P (filter (task_alive \<circ> snd) h)"
      by (simp add: conj_commute)
    then show ?thesis
      using distinct_map_filter [of "task_socket \<circ> snd" "filter (task_alive \<circ> snd) h" P] that
      by (simp only: held_def)
  qed
  with assms(4) sub have "distinct (others @ held (kept_handles listen_ips h))"
    unfolding kept_handles_def by auto
  note d = start_threads_distinct [OF assms(3) missing_facts(1,3) [OF assms(1)] this, of into_ip port "[]"]
  obtain h1 errs where run: "start_threads into_ip port bind_os others
      (missing_threads order listen_ips h) (kept_handles listen_ips h) [] = (h1, errs)"
    by (cases "start_threads into_ip port bind_os others
      (missing_threads order listen_ips h) (kept_handles listen_ips h) []")
  with stop_and_start_parts [OF assms(1) dist, of into_ip await port bind_os others listen_ips] assms(5)
  have "h' = h1" by auto
  with d run show ?thesis by simp
qed

text \<open>Two tasks never hold the same socket address: when the operating system refuses an
  address that is in use, a reload keeps the addresses of all living tasks distinct, among
  themselves and from those of the other family.\<close>

theorem reload_keeps_sockets_distinct:
  assumes "hash_order order" and "handles_ok into_ip port h" and "bind_excludes bind_os"
    and "distinct (others @ held h)"
    and "stop_and_start_threads into_ip order await port bind_os others listen_ips h =
      Some (h', log, r)"
  shows "distinct (others @ held h')"
  by (rule reload_sockets [OF assms])

theorem reload_keeps_sockets_distinct_witness:
  "\<exists>h' log r. stop_and_start_threads V4 rev (\<lambda>_. Inr (Inr ())) 53 strict_bind [] moved_ips
      moved_handles = Some (h', log, r) \<and> distinct ([] @ held h')"
proof -
  have dist: "distinct ([] @ held moved_handles)"
    by (simp add: moved_handles_def held_def)
  have "stop_and_start_threads V4 rev (\<lambda>_. Inr (Inr ())) 53 strict_bind [] moved_ips moved_handles \<noteq> None"
    by (simp add: stop_and_start_threads_def expected_threads_def moved_ips_def moved_handles_def
        stop_threads_def Let_def errors_defs split: prod.split)
  then obtain h' log r where run: "stop_and_start_threads V4 rev (\<lambda>_. Inr (Inr ())) 53 strict_bind []
      moved_ips moved_handles = Some (h', log, r)" by auto
  from reload_keeps_sockets_distinct [OF hash_order_rev moved_handles_ok strict_bind_ok(2) dist run] run
  show ?thesis by blast
qed

end
