(* ===== verification/Server.thy ===== *)
theory Server
  imports Threads
begin

text \<open>
  \<open>read_config_and_spawn\<close> and \<open>serve\<close> of \<open>src/server/serve.rs\<close>: start-up, the reaction to SIGHUP
  and to a change of \<open>/etc/resolv.conf\<close>, and the exits of the process.  What the server reads of
  the outside at one reload is the record \<open>world\<close>; the functions of the platform that never
  change are the record \<open>platform\<close>.  The mutex of the host's servers is never poisoned, since no
  code that holds it can panic, so the branches for a poisoned lock are not modelled.
\<close>

section \<open>The outside\<close>

record 'n platform =
  pl_uni :: "string \<Rightarrow> string"
  pl_into_io :: "'n \<Rightarrow> io_error"
  pl_if_index :: "string \<Rightarrow> 'n + 32 word"
  pl_order :: "(string \<times> ip_addr list) list \<Rightarrow> (string \<times> ip_addr list) list"
  pl_order4 :: "ipv4 thread_key list \<Rightarrow> ipv4 thread_key list"
  pl_order6 :: "ipv6 thread_key list \<Rightarrow> ipv6 thread_key list"
  pl_await :: await_oracle

definition platform_ok :: "'n platform \<Rightarrow> bool" where
  "platform_ok P \<longleftrightarrow> hash_order (pl_order P) \<and> hash_order (pl_order4 P) \<and> hash_order (pl_order6 P)"

record world =
  w_is_dir :: "io_error + bool"
  w_read_dir :: "io_error + (io_error + dir_entry) list"
  w_resolv_conf :: "io_error + (io_error + string)"
  w_remove_pid :: "io_error option"
  w_bind :: bind_oracle

text \<open>The arguments of \<open>serve\<close>, and whether \<open>AARDVARK_NO_PROXY\<close> is set.\<close>

record settings =
  config_path :: string
  port :: u16
  filter_search_domain :: string
  no_proxy_env :: bool

section \<open>The state of the server\<close>

record server_state =
  store :: "dns_backend option"
  handles_v4 :: "ipv4 handles"
  handles_v6 :: "ipv6 handles"
  host_nameservers :: "socket_addr list"
  server_log :: "server_log list"

definition server_init :: server_state where
  "server_init = \<lparr>store = None, handles_v4 = [], handles_v6 = [], host_nameservers = [], server_log = []\<rparr>"

definition add_log :: "server_log list \<Rightarrow> server_state \<Rightarrow> server_state" where
  "add_log l s = s\<lparr>server_log := server_log s @ l\<rparr>"

text \<open>
  What a task works with when a message reaches it: its own network name, and what the closure
  that was spawned for it shares with the server.
\<close>

definition task_data :: "settings \<Rightarrow> server_state \<Rightarrow> task \<Rightarrow> core_dns_data option" where
  "task_data cfg s t =
     map_option (\<lambda>be. core_dns_new (task_network t) be (no_proxy_env cfg) (host_nameservers s)) (store s)"

datatype spawn_outcome =
    Returned server_state "unit aardvark_result"
  | Exited int server_state
  | Panicked

section \<open>Reading the configuration\<close>

text \<open>Nothing to listen on: the pid file goes, the tasks are stopped, the process exits.\<close>

definition stop_server :: "'n platform \<Rightarrow> world \<Rightarrow> server_state \<Rightarrow> spawn_outcome" where
  "stop_server P w s =
     (case w_remove_pid w of
        Some err \<Rightarrow> Exited 1 (add_log [Log_Pid_Removal err] s)
      | None \<Rightarrow>
          (case stop_threads (pl_order4 P) (pl_await P) (handles_v4 s) None of
             None \<Rightarrow> Panicked
           | Some (h4, log4) \<Rightarrow>
               (case stop_threads (pl_order6 P) (pl_await P) (handles_v6 s) None of
                  None \<Rightarrow> Panicked
                | Some (h6, log6) \<Rightarrow>
                    Exited 0 (add_log (log4 @ log6) (s\<lparr>handles_v4 := h4, handles_v6 := h6\<rparr>)))))"

definition push_failure :: "aardvark_error list \<Rightarrow> unit aardvark_result \<Rightarrow> aardvark_error list" where
  "push_failure errors r = (case r of Inl err \<Rightarrow> errors_push errors err | Inr _ \<Rightarrow> errors)"

definition spawn_servers ::
  "'n platform \<Rightarrow> settings \<Rightarrow> world \<Rightarrow> listen_ips \<Rightarrow> server_state \<Rightarrow> spawn_outcome" where
  "spawn_servers P cfg w ips s =
     (let r = get_upstream_resolvers (pl_into_io P) (pl_if_index P) (w_resolv_conf w);
          errors = (case r of
              Inl err \<Rightarrow> errors_push errors_new
                (error_wrap ''failed to get upstream nameservers, dns forwarding will not work'' err)
            | Inr _ \<Rightarrow> errors_new);
          s = s\<lparr>host_nameservers := (case r of Inr ns \<Rightarrow> ns | Inl _ \<Rightarrow> [])\<rparr>
      in case stop_and_start_threads V4 (pl_order4 P) (pl_await P) (port cfg) (w_bind w)
              (held (handles_v6 s)) (fst ips) (handles_v4 s) of
           None \<Rightarrow> Panicked
         | Some (h4, log4, r4) \<Rightarrow>
             (let s = add_log log4 (s\<lparr>handles_v4 := h4\<rparr>);
                  errors = push_failure errors r4
              in case stop_and_start_threads V6 (pl_order6 P) (pl_await P) (port cfg) (w_bind w)
                      (held (handles_v4 s)) (snd ips) (handles_v6 s) of
                   None \<Rightarrow> Panicked
                 | Some (h6, log6, r6) \<Rightarrow>
                     (let s = add_log log6 (s\<lparr>handles_v6 := h6\<rparr>);
                          errors = push_failure errors r6
                      in Returned s
                           (if errors_is_empty errors then Inr () else Inl (ErrorList errors)))))"

definition read_config_and_spawn ::
  "'n platform \<Rightarrow> settings \<Rightarrow> world \<Rightarrow> server_state \<Rightarrow> spawn_outcome" where
  "read_config_and_spawn P cfg w s =
     (case parse_configs (pl_uni P) (pl_order P) (config_path cfg) (w_is_dir w) (w_read_dir w)
             (filter_search_domain cfg) of
        (clog, parsed) \<Rightarrow>
          (let s = add_log (map Log_Config clog) s
           in case wrap (\<lambda>e. e) parsed ''unable to parse config'' of
                Inl e \<Rightarrow> Returned s (Inl e)
              | Inr (conf, ips) \<Rightarrow>
                  (let s = s\<lparr>store := Some conf\<rparr>
                   in if fst ips = [] \<and> snd ips = [] then stop_server P w s
                      else spawn_servers P cfg w ips s)))"

section \<open>Start-up and the event loop\<close>

definition daemonize :: "io_error option \<Rightarrow> io_error + unit" where
  "daemonize open_dev_null =
     (case open_dev_null of
        Some e \<Rightarrow> Inl (Io_Error (kind e) (''/dev/null: '' @ io_text e))
      | None \<Rightarrow> Inr ())"

text \<open>
  \<open>serve\<close> up to its loop: what it writes into the pipe its parent reads from, and how it ends.  The
  byte is written after the first reload succeeded and the process detached, on no other path.
\<close>

datatype startup =
    Start_Failed aardvark_error
  | Started server_state
  | Start_Exited int
  | Start_Panicked

definition serve_ready ::
  "'n platform \<Rightarrow> settings \<Rightarrow> world \<Rightarrow> io_error option \<Rightarrow> io_error option \<Rightarrow> 'n option \<Rightarrow>
   string \<times> startup" where
  "serve_ready P cfg w signal_error open_dev_null write_error =
     (case signal_error of
        Some e \<Rightarrow> ([], Start_Failed (from_io_error e))
      | None \<Rightarrow>
          (case read_config_and_spawn P cfg w server_init of
             Exited code s \<Rightarrow> ([], Start_Exited code)
           | Panicked \<Rightarrow> ([], Start_Panicked)
           | Returned s (Inl e) \<Rightarrow> ([], Start_Failed e)
           | Returned s (Inr _) \<Rightarrow>
               (case daemonize open_dev_null of
                  Inl e \<Rightarrow> ([], Start_Failed (from_io_error e))
                | Inr _ \<Rightarrow>
                    (case write_error of
                       Some e \<Rightarrow> ([], Start_Failed (from_nix_error (pl_into_io P) e))
                     | None \<Rightarrow> (''1'', Started s)))))"

definition serve_start ::
  "'n platform \<Rightarrow> settings \<Rightarrow> world \<Rightarrow> io_error option \<Rightarrow> io_error option \<Rightarrow> 'n option \<Rightarrow> startup" where
  "serve_start P cfg w signal_error open_dev_null write_error =
     snd (serve_ready P cfg w signal_error open_dev_null write_error)"

text \<open>Whether there is a stream of changes of \<open>resolv.conf\<close>: each step of setting it up may fail.\<close>

definition get_inotify_event_stream ::
  "io_error option \<Rightarrow> io_error option \<Rightarrow> io_error option \<Rightarrow> bool" where
  "get_inotify_event_stream init_error watch_error stream_error \<longleftrightarrow>
     (case init_error of
        Some e \<Rightarrow> False
      | None \<Rightarrow> (case watch_error of
                   None \<Rightarrow> (case stream_error of None \<Rightarrow> True | Some e \<Rightarrow> False)
                 | Some e \<Rightarrow> False))"

text \<open>
  The loop.  Each round evaluates the expression of both branches of \<open>select!\<close> before it waits: the
  guard \<open>if event_stream.is_some()\<close> only keeps the branch from being polled, and \<open>unwrap()\<close> is part of
  the expression.  So a round without a stream panics, whether or not anything happens.
\<close>

datatype loop_state = Starting | Looping | Loop_Panicked

definition loop_round :: "bool \<Rightarrow> loop_state" where
  "loop_round event_stream = (if event_stream then Looping else Loop_Panicked)"

definition enter_loop :: "bool \<Rightarrow> startup \<Rightarrow> startup" where
  "enter_loop event_stream st =
     (case st of
        Started s \<Rightarrow> if loop_round event_stream = Looping then Started s else Start_Panicked
      | _ \<Rightarrow> st)"

text \<open>\<open>serve\<close> up to its first wait in the loop.\<close>

definition serve ::
  "'n platform \<Rightarrow> settings \<Rightarrow> world \<Rightarrow> io_error option \<Rightarrow> io_error option \<Rightarrow> 'n option \<Rightarrow> bool \<Rightarrow>
   string \<times> startup" where
  "serve P cfg w signal_error open_dev_null write_error event_stream =
     (case serve_ready P cfg w signal_error open_dev_null write_error of
        (written, st) \<Rightarrow> (written, enter_loop event_stream st))"

datatype serve_event =
    Sighup world
  | Resolv_Changed "io_error + (io_error + string)"
  | Task_Ended4 "ipv4 thread_key"
  | Task_Ended6 "ipv6 thread_key"

datatype server =
    Running server_state
  | Stopped int server_state
  | Crashed

definition log_reload :: "unit aardvark_result \<Rightarrow> server_state \<Rightarrow> server_state" where
  "log_reload r s = (case r of Inl e \<Rightarrow> add_log [Log_Reload_Failed e] s | Inr _ \<Rightarrow> s)"

text \<open>A task whose \<open>run\<close> returned stays in its map.\<close>

definition end_task :: "'ip thread_key \<Rightarrow> 'ip handles \<Rightarrow> 'ip handles" where
  "end_task k h = map (\<lambda>(j, t). if j = k then (j, t\<lparr>task_alive := False\<rparr>) else (j, t)) h"

text \<open>What one event does to a server that waits in its loop, so one that has an event stream.\<close>

inductive serve_step ::
  "'n platform \<Rightarrow> settings \<Rightarrow> server_state \<Rightarrow> serve_event \<Rightarrow> server \<Rightarrow> bool"
  for P :: "'n platform" and cfg :: settings
where
  reload: "read_config_and_spawn P cfg w s = Returned s' r \<Longrightarrow>
    serve_step P cfg s (Sighup w) (Running (log_reload r s'))"
| reload_exit: "read_config_and_spawn P cfg w s = Exited code s' \<Longrightarrow>
    serve_step P cfg s (Sighup w) (Stopped code s')"
| reload_panic: "read_config_and_spawn P cfg w s = Panicked \<Longrightarrow>
    serve_step P cfg s (Sighup w) Crashed"
| resolv_ok: "get_upstream_resolvers (pl_into_io P) (pl_if_index P) f = Inr ns \<Longrightarrow>
    serve_step P cfg s (Resolv_Changed f) (Running (s\<lparr>host_nameservers := ns\<rparr>))"
| resolv_failed: "get_upstream_resolvers (pl_into_io P) (pl_if_index P) f = Inl e \<Longrightarrow>
    serve_step P cfg s (Resolv_Changed f) (Running (add_log [Log_Nameservers_Failed e] s))"
| ended4: "serve_step P cfg s (Task_Ended4 k4)
    (Running (s\<lparr>handles_v4 := end_task k4 (handles_v4 s)\<rparr>))"
| ended6: "serve_step P cfg s (Task_Ended6 k6)
    (Running (s\<lparr>handles_v6 := end_task k6 (handles_v6 s)\<rparr>))"

inductive_simps serve_step_sighup: "serve_step P cfg s (Sighup w) s'"
inductive_simps serve_step_resolv: "serve_step P cfg s (Resolv_Changed f) s'"
inductive_simps serve_step_ended4: "serve_step P cfg s (Task_Ended4 k4) s'"
inductive_simps serve_step_ended6: "serve_step P cfg s (Task_Ended6 k6) s'"

lemmas serve_step_simps =
  serve_step_sighup serve_step_resolv serve_step_ended4 serve_step_ended6

text \<open>
  The states of a server that was started, while it runs; \<open>watching\<close> tells whether there is an event
  stream, without which no round of the loop is completed.
\<close>

inductive reachable ::
  "'n platform \<Rightarrow> settings \<Rightarrow> bool \<Rightarrow> (world \<Rightarrow> bool) \<Rightarrow> server_state \<Rightarrow> bool"
  for P :: "'n platform" and cfg :: settings and watching :: bool and admissible :: "world \<Rightarrow> bool"
where
  started: "admissible w \<Longrightarrow> enter_loop watching (serve_start P cfg w None None None) = Started s \<Longrightarrow>
    reachable P cfg watching admissible s"
| step: "reachable P cfg watching admissible s \<Longrightarrow>
    (\<And>w. e = Sighup w \<Longrightarrow> admissible w) \<Longrightarrow>
    serve_step P cfg s e (Running s') \<Longrightarrow> reachable P cfg watching admissible s'"

end
