(* ===== verification/Server_Props.thy ===== *)
theory Server_Props
  imports Server
begin

text \<open>
  Properties of the server as a whole: the invariant of every reachable state, what a reload
  reaches, which failures are fatal and which are not, and when the process ends.
\<close>

section \<open>One reload\<close>

definition tasks_ok :: "settings \<Rightarrow> server_state \<Rightarrow> bool" where
  "tasks_ok cfg s \<longleftrightarrow> handles_ok V4 (port cfg) (handles_v4 s) \<and> handles_ok V6 (port cfg) (handles_v6 s)"

definition sockets_ok :: "server_state \<Rightarrow> bool" where
  "sockets_ok s \<longleftrightarrow> distinct (held (handles_v4 s) @ held (handles_v6 s))"

text \<open>What the tasks of a family must satisfy after a reload from \<open>h\<close> to \<open>h'\<close>.\<close>

definition reloaded :: "(string \<times> 'ip list) list \<Rightarrow> 'ip handles \<Rightarrow> 'ip handles \<Rightarrow> bool" where
  "reloaded listen_ips h h' \<longleftrightarrow>
     fst ` set h' \<subseteq> set (expected_threads listen_ips) \<and>
     list_all (\<lambda>k. k \<in> fst ` set h \<longrightarrow> map_of h' k = map_of h k) (expected_threads listen_ips)"

lemma reload_obtain:
  assumes "hash_order order" and "handles_ok into_ip p h"
  obtains h' log r where
    "stop_and_start_threads into_ip order await p bind_os others listen_ips h = Some (h', log, r)"
    "handles_ok into_ip p h'" "reloaded listen_ips h h'"
    "r = Inr () \<longleftrightarrow> fst ` set h' = set (expected_threads listen_ips)"
proof -
  obtain h' log r where res: "stop_and_start_threads into_ip order await p bind_os others listen_ips h =
      Some (h', log, r)" and ok: "handles_ok into_ip p h'" "reloaded listen_ips h h'"
    and case_r: "case r of Inr _ \<Rightarrow> fst ` set h' = set (expected_threads listen_ips)
      | Inl e \<Rightarrow> \<exists>es. e = ErrorList es \<and> 0 < length es \<and>
          length es = card (set (expected_threads listen_ips) - fst ` set h')"
    using reload_facts [OF assms, of await bind_os others listen_ips] unfolding reloaded_def by blast
  have "r = Inr () \<longleftrightarrow> fst ` set h' = set (expected_threads listen_ips)"
    using case_r by (cases r) auto
  with that res ok show thesis by blast
qed

lemma spawn_obtain:
  assumes "platform_ok P" and "tasks_ok cfg s"
  obtains s' r where "spawn_servers P cfg w ips s = Returned s' r" and "tasks_ok cfg s'"
    and "store s' = store s"
    and "host_nameservers s' =
      (case get_upstream_resolvers (pl_into_io P) (pl_if_index P) (w_resolv_conf w) of
         Inr ns \<Rightarrow> ns | Inl _ \<Rightarrow> [])"
    and "reloaded (fst ips) (handles_v4 s) (handles_v4 s')"
    and "reloaded (snd ips) (handles_v6 s) (handles_v6 s')"
    and "r = Inr () \<longleftrightarrow>
      (\<exists>ns. get_upstream_resolvers (pl_into_io P) (pl_if_index P) (w_resolv_conf w) = Inr ns) \<and>
      fst ` set (handles_v4 s') = set (expected_threads (fst ips)) \<and>
      fst ` set (handles_v6 s') = set (expected_threads (snd ips))"
    and "bind_excludes (w_bind w) \<Longrightarrow> sockets_ok s \<Longrightarrow> sockets_ok s'"
    and "(\<exists>err. r = Inl err) \<longleftrightarrow> r \<noteq> Inr ()"
proof -
  from assms have orders: "hash_order (pl_order4 P)" "hash_order (pl_order6 P)"
    and ok: "handles_ok V4 (port cfg) (handles_v4 s)" "handles_ok V6 (port cfg) (handles_v6 s)"
    by (simp_all add: platform_ok_def tasks_ok_def)
  obtain h4 log4 r4 where 4: "stop_and_start_threads V4 (pl_order4 P) (pl_await P) (port cfg) (w_bind w)
      (held (handles_v6 s)) (fst ips) (handles_v4 s) = Some (h4, log4, r4)"
    "handles_ok V4 (port cfg) h4" "reloaded (fst ips) (handles_v4 s) h4"
    "r4 = Inr () \<longleftrightarrow> fst ` set h4 = set (expected_threads (fst ips))"
    by (rule reload_obtain [OF orders(1) ok(1)])
  obtain h6 log6 r6 where 6: "stop_and_start_threads V6 (pl_order6 P) (pl_await P) (port cfg) (w_bind w)
      (held h4) (snd ips) (handles_v6 s) = Some (h6, log6, r6)"
    "handles_ok V6 (port cfg) h6" "reloaded (snd ips) (handles_v6 s) h6"
    "r6 = Inr () \<longleftrightarrow> fst ` set h6 = set (expected_threads (snd ips))"
    by (rule reload_obtain [OF orders(2) ok(2)])
  let ?up = "get_upstream_resolvers (pl_into_io P) (pl_if_index P) (w_resolv_conf w)"
  define s' where "s' = s\<lparr>host_nameservers := (case ?up of Inr ns \<Rightarrow> ns | Inl _ \<Rightarrow> []),
    handles_v4 := h4, handles_v6 := h6, server_log := server_log s @ log4 @ log6\<rparr>"
  define errors where "errors = push_failure (push_failure (case ?up of
      Inl err \<Rightarrow> errors_push errors_new
        (error_wrap ''failed to get upstream nameservers, dns forwarding will not work'' err)
    | Inr _ \<Rightarrow> errors_new) r4) r6"
  define r where "r = (if errors_is_empty errors then Inr () else Inl (ErrorList errors))"
  have run: "spawn_servers P cfg w ips s = Returned s' r"
    by (simp add: spawn_servers_def Let_def 4(1) 6(1) add_log_def s'_def r_def errors_def)
  have "errors = [] \<longleftrightarrow> (\<exists>ns. ?up = Inr ns) \<and> r4 = Inr () \<and> r6 = Inr ()"
    by (cases ?up; cases r4; cases r6) (simp_all add: errors_def push_failure_def errors_defs)
  then have r_iff: "r = Inr () \<longleftrightarrow> (\<exists>ns. ?up = Inr ns) \<and>
      fst ` set h4 = set (expected_threads (fst ips)) \<and> fst ` set h6 = set (expected_threads (snd ips))"
    by (simp add: r_def errors_is_empty_def 4(4) 6(4))
  have sockets: "sockets_ok s'" if excl: "bind_excludes (w_bind w)" and "sockets_ok s"
  proof -
    have "distinct (held (handles_v6 s) @ held (handles_v4 s))"
      using that(2) by (auto simp: sockets_ok_def)
    from reload_sockets [OF orders(1) ok(1) excl this 4(1)]
    have "distinct (held h4 @ held (handles_v6 s))" by auto
    from reload_sockets [OF orders(2) ok(2) excl this 6(1)]
    show ?thesis by (simp add: sockets_ok_def s'_def)
  qed
  show thesis
    by (rule that [OF run]) (use 4 6 r_iff sockets in \<open>auto simp: s'_def tasks_ok_def r_def\<close>)
qed

text \<open>The four ways a reload can go.\<close>

lemma read_config_cases:
  "read_config_and_spawn P cfg w s =
     (case parse_configs (pl_uni P) (pl_order P) (config_path cfg) (w_is_dir w) (w_read_dir w)
             (filter_search_domain cfg) of
        (clog, Inl e) \<Rightarrow>
          Returned (add_log (map Log_Config clog) s) (Inl (Chain ''unable to parse config'' e))
      | (clog, Inr (conf, ips)) \<Rightarrow>
          (let s = (add_log (map Log_Config clog) s)\<lparr>store := Some conf\<rparr>
           in if ips = ([], []) then stop_server P w s else spawn_servers P cfg w ips s))"
  by (auto simp: read_config_and_spawn_def Let_def split: prod.split sum.split)

lemma tasks_ok_store [simp]: "tasks_ok cfg (s\<lparr>store := x\<rparr>) = tasks_ok cfg s"
  by (simp add: tasks_ok_def)

lemma tasks_ok_log [simp]: "tasks_ok cfg (add_log l s) = tasks_ok cfg s"
  by (simp add: tasks_ok_def add_log_def)

lemma add_log_fields [simp]:
  "store (add_log l s) = store s" "handles_v4 (add_log l s) = handles_v4 s"
  "handles_v6 (add_log l s) = handles_v6 s" "host_nameservers (add_log l s) = host_nameservers s"
  by (simp_all add: add_log_def)

lemma stop_server_result:
  assumes "platform_ok P" "tasks_ok cfg s"
  shows "\<exists>log. stop_server P w s =
    (case w_remove_pid w of
       Some err \<Rightarrow> Exited 1 (add_log [Log_Pid_Removal err] s)
     | None \<Rightarrow> Exited 0 (add_log log (s\<lparr>handles_v4 := [], handles_v6 := []\<rparr>)))"
proof -
  from assms have "hash_order (pl_order4 P)" "distinct (map fst (handles_v4 s))"
    "hash_order (pl_order6 P)" "distinct (map fst (handles_v6 s))"
    by (simp_all add: platform_ok_def tasks_ok_def handles_ok_def)
  then obtain log4 log6 where
    "stop_threads (pl_order4 P) (pl_await P) (handles_v4 s) None = Some ([], log4)"
    "stop_threads (pl_order6 P) (pl_await P) (handles_v6 s) None = Some ([], log6)"
    using stop_threads_all by metis
  then show ?thesis by (auto simp: stop_server_def split: option.split)
qed

lemma read_config_total:
  assumes "platform_ok P" "tasks_ok cfg s"
  shows "read_config_and_spawn P cfg w s \<noteq> Panicked"
proof -
  have "stop_server P w s' \<noteq> Panicked" if "tasks_ok cfg s'" for s'
    using stop_server_result [OF assms(1) that, of w] by (auto split: option.splits)
  moreover have "spawn_servers P cfg w ips s' \<noteq> Panicked" if "tasks_ok cfg s'" for s' ips
    using spawn_obtain [OF assms(1) that, of w ips] by (metis spawn_outcome.distinct(3))
  ultimately show ?thesis
    using assms(2) unfolding read_config_cases by (auto simp: Let_def split: prod.split sum.split)
qed

section \<open>The invariant\<close>

definition nameservers_ok :: "socket_addr list \<Rightarrow> bool" where
  "nameservers_ok ns \<longleftrightarrow> length ns \<le> 3 \<and> list_all (\<lambda>a. socket_port a = DNS_PORT) ns"

lemma nameservers_ok_Nil [simp]: "nameservers_ok []"
  by (simp add: nameservers_ok_def)

lemma get_upstream_ok: "get_upstream_resolvers into_io ifi f = Inr ns \<Longrightarrow> nameservers_ok ns"
proof -
  assume "get_upstream_resolvers into_io ifi f = Inr ns"
  then obtain buf where "parse_resolv_conf into_io ifi buf = Inr ns"
    unfolding get_upstream_resolvers_def by (auto split: sum.splits)
  then show ?thesis unfolding nameservers_ok_def by (rule resolv_bounds)
qed

definition server_inv :: "settings \<Rightarrow> server_state \<Rightarrow> bool" where
  "server_inv cfg s \<longleftrightarrow> tasks_ok cfg s \<and> sockets_ok s \<and> nameservers_ok (host_nameservers s)"

lemma server_inv_frame:
  assumes "handles_v4 s' = handles_v4 s" "handles_v6 s' = handles_v6 s"
    and "host_nameservers s' = host_nameservers s" and "server_inv cfg s"
  shows "server_inv cfg s'"
  using assms by (simp add: server_inv_def tasks_ok_def sockets_ok_def)

lemma read_config_inv:
  assumes "platform_ok P" "bind_excludes (w_bind w)" "server_inv cfg s"
    and "read_config_and_spawn P cfg w s = Returned s' r"
  shows "server_inv cfg s'" and "store s \<noteq> None \<or> r = Inr () \<Longrightarrow> store s' \<noteq> None"
proof -
  obtain clog parsed where parsed: "parse_configs (pl_uni P) (pl_order P) (config_path cfg) (w_is_dir w)
      (w_read_dir w) (filter_search_domain cfg) = (clog, parsed)" by fastforce
  have "server_inv cfg s' \<and> (store s \<noteq> None \<or> r = Inr () \<longrightarrow> store s' \<noteq> None)"
  proof (cases parsed)
    case (Inl e)
    then have "s' = add_log (map Log_Config clog) s" "r = Inl (Chain ''unable to parse config'' e)"
      using assms(4) unfolding read_config_cases parsed by simp_all
    with assms(3) show ?thesis using server_inv_frame [of s' s] by simp
  next
    case (Inr p)
    obtain conf ips where p: "p = (conf, ips)" by (cases p)
    let ?s = "(add_log (map Log_Config clog) s)\<lparr>store := Some conf\<rparr>"
    have inv: "server_inv cfg ?s" by (rule server_inv_frame [OF _ _ _ assms(3)]) simp_all
    have "stop_server P w ?s \<noteq> Returned s' r"
      using stop_server_result [OF assms(1), of cfg ?s w] inv
      by (auto simp: server_inv_def split: option.splits)
    then have run: "spawn_servers P cfg w ips ?s = Returned s' r"
      using assms(4) unfolding read_config_cases parsed Inr p by (auto simp: Let_def split: if_splits)
    have tasks: "tasks_ok cfg ?s" and sockets: "sockets_ok ?s"
      using inv by (simp_all add: server_inv_def)
    show ?thesis
    proof (rule spawn_obtain [OF assms(1) tasks, of w ips])
      fix s1 r1
      assume res: "spawn_servers P cfg w ips ?s = Returned s1 r1" "tasks_ok cfg s1" "store s1 = store ?s"
        and ns: "host_nameservers s1 =
          (case get_upstream_resolvers (pl_into_io P) (pl_if_index P) (w_resolv_conf w) of
             Inr ns \<Rightarrow> ns | Inl _ \<Rightarrow> [])"
        and socks: "bind_excludes (w_bind w) \<Longrightarrow> sockets_ok ?s \<Longrightarrow> sockets_ok s1"
      have "s' = s1" using run res(1) by simp
      moreover have "nameservers_ok (host_nameservers s1)"
        unfolding ns by (auto split: sum.split dest: get_upstream_ok)
      ultimately show ?thesis
        using res socks [OF assms(2) sockets] by (simp add: server_inv_def)
    qed
  qed
  then show "server_inv cfg s'" and "store s \<noteq> None \<or> r = Inr () \<Longrightarrow> store s' \<noteq> None" by blast+
qed

lemma end_task_ok: "handles_ok into_ip p h \<Longrightarrow> handles_ok into_ip p (end_task k h)"
proof -
  assume ok: "handles_ok into_ip p h"
  have keys: "map fst (end_task k h) = map fst h" by (induction h) (auto simp: end_task_def)
  have "task_network t = net \<and> task_socket t = socket_new (into_ip ip) p"
    if "((net, ip), t) \<in> set (end_task k h)" for net ip t
    using that ok by (auto simp: end_task_def handles_ok_def split: if_splits)
  with ok keys show ?thesis by (simp add: handles_ok_def)
qed

lemma end_task_held: "set (held (end_task k h)) \<subseteq> set (held h)"
  "distinct (held h) \<Longrightarrow> distinct (held (end_task k h))"
proof -
  have step: "held (p # h) = (if task_alive (snd p) then [task_socket (snd p)] else []) @ held h"
    "held (end_task k (p # h)) = (if task_alive (snd p) \<and> fst p \<noteq> k then [task_socket (snd p)] else [])
       @ held (end_task k h)" for p and h :: "'a handles"
    by (cases p; simp add: held_def end_task_def)+
  have sub: "set (held (end_task k h)) \<subseteq> set (held h)" for h :: "'a handles"
  proof (induction h)
    case Nil
    then show ?case by (simp add: held_def end_task_def)
  next
    case (Cons p h)
    then show ?case unfolding step by auto
  qed
  then show "set (held (end_task k h)) \<subseteq> set (held h)" .
  show "distinct (held h) \<Longrightarrow> distinct (held (end_task k h))"
  proof (induction h)
    case Nil
    then show ?case by (simp add: held_def end_task_def)
  next
    case (Cons p h)
    then show ?case using sub [of h] unfolding step by (auto split: if_splits)
  qed
qed

lemma end_task_inv:
  assumes "server_inv cfg s"
  shows "server_inv cfg (s\<lparr>handles_v4 := end_task k4 (handles_v4 s)\<rparr>)"
    and "server_inv cfg (s\<lparr>handles_v6 := end_task k6 (handles_v6 s)\<rparr>)"
proof -
  note parts = assms [unfolded server_inv_def tasks_ok_def sockets_ok_def]
  show "server_inv cfg (s\<lparr>handles_v4 := end_task k4 (handles_v4 s)\<rparr>)"
    using parts end_task_ok [of V4 "port cfg" "handles_v4 s" k4] end_task_held [where h = "handles_v4 s" and k = k4]
    by (auto simp: server_inv_def tasks_ok_def sockets_ok_def)
  show "server_inv cfg (s\<lparr>handles_v6 := end_task k6 (handles_v6 s)\<rparr>)"
    using parts end_task_ok [of V6 "port cfg" "handles_v6 s" k6] end_task_held [where h = "handles_v6 s" and k = k6]
    by (auto simp: server_inv_def tasks_ok_def sockets_ok_def)
qed

lemma server_init_inv: "server_inv cfg server_init"
  by (simp add: server_init_def server_inv_def tasks_ok_def sockets_ok_def held_def)

text \<open>The byte is written on the one path on which the start-up succeeds.\<close>

lemma serve_ready_cases:
  "(\<exists>s. se = None \<and> oe = None \<and> we = None \<and>
      read_config_and_spawn P cfg w server_init = Returned s (Inr ()) \<and>
      serve_ready P cfg w se oe we = (''1'', Started s)) \<or>
   (\<exists>st. serve_ready P cfg w se oe we = ([], st) \<and> (\<forall>s. st \<noteq> Started s) \<and>
      \<not> (se = None \<and> oe = None \<and> we = None \<and>
         (\<exists>s. read_config_and_spawn P cfg w server_init = Returned s (Inr ()))))"
  by (auto simp: serve_ready_def daemonize_def split: option.splits spawn_outcome.splits sum.splits)

lemma serve_start_Started:
  "serve_start P cfg w se oe we = Started s \<longleftrightarrow> se = None \<and> oe = None \<and> we = None \<and>
     read_config_and_spawn P cfg w server_init = Returned s (Inr ())"
  using serve_ready_cases [of se oe we P cfg w] by (auto simp: serve_start_def)

lemma serve_bytes:
  "fst (serve P cfg w se oe we event_stream) \<noteq> [] \<longleftrightarrow> (\<exists>s. serve_start P cfg w se oe we = Started s)"
  "snd (serve P cfg w se oe we event_stream) = enter_loop event_stream (serve_start P cfg w se oe we)"
  using serve_ready_cases [of se oe we P cfg w] by (auto simp: serve_def serve_start_def split: prod.split)

lemma enter_loop_Started [simp]:
  "enter_loop event_stream st = Started s \<longleftrightarrow> event_stream \<and> st = Started s"
  by (cases st) (simp_all add: enter_loop_def loop_round_def)

lemma reachable_watching: "reachable P cfg watching admissible s \<Longrightarrow> watching"
  by (induction rule: reachable.induct) simp_all

lemma reachable_inv:
  assumes "platform_ok P" and "\<And>w. admissible w \<Longrightarrow> bind_excludes (w_bind w)"
    and "reachable P cfg watching admissible s"
  shows "server_inv cfg s \<and> store s \<noteq> None"
  using assms(3)
proof (induction rule: reachable.induct)
  case (started w s)
  then have "read_config_and_spawn P cfg w server_init = Returned s (Inr ())"
    by (simp add: serve_start_Started)
  with read_config_inv [OF assms(1) assms(2) [OF started(1)] server_init_inv this] show ?case by simp
next
  case (step s e s')
  show ?case
  proof (cases e)
    case (Sighup w)
    with step.hyps(3) obtain s1 r where run: "read_config_and_spawn P cfg w s = Returned s1 r"
      and s': "s' = log_reload r s1"
      by (auto simp: serve_step_simps)
    have "server_inv cfg s1 \<and> store s1 \<noteq> None"
      using read_config_inv [OF assms(1) assms(2) [OF step.hyps(2) [OF Sighup]] _ run] step.IH by simp
    then show ?thesis using server_inv_frame [of s' s1 cfg] by (auto simp: s' log_reload_def split: sum.split)
  next
    case (Resolv_Changed f)
    with step.hyps(3) step.IH show ?thesis
      using server_inv_frame [of s' s cfg] get_upstream_ok
      by (auto simp: serve_step_simps server_inv_def tasks_ok_def sockets_ok_def)
  next
    case (Task_Ended4 k)
    with step.hyps(3) step.IH end_task_inv(1) [of cfg s k] show ?thesis by (auto simp: serve_step_simps)
  next
    case (Task_Ended6 k)
    with step.hyps(3) step.IH end_task_inv(2) [of cfg s k] show ?thesis by (auto simp: serve_step_simps)
  qed
qed

section \<open>A sample installation\<close>

definition small_file :: dir_entry where
  "small_file = \<lparr>path_display = ''/run/podman'', file_name = Some ''podman'', name_lossy = ''podman'',
     contents = Inr ''10.88.0.1''\<rparr>"

definition sample_platform :: "unit platform" where
  "sample_platform = \<lparr>pl_uni = id, pl_into_io = (\<lambda>_. Io_Error OtherKind ''''),
     pl_if_index = (\<lambda>_. Inl ()), pl_order = rev, pl_order4 = rev, pl_order6 = rev,
     pl_await = (\<lambda>_. Inr (Inr ()))\<rparr>"

definition sample_settings :: settings where
  "sample_settings = \<lparr>config_path = ''/run'', port = 53, filter_search_domain = ''.dns.podman'',
     no_proxy_env = False\<rparr>"

definition sample_world :: world where
  "sample_world = \<lparr>w_is_dir = Inr True, w_read_dir = Inr [Inr small_file],
     w_resolv_conf = Inr (Inr ''nameserver 1.1.1.1''), w_remove_pid = None, w_bind = strict_bind\<rparr>"

definition broken_world :: world where
  "broken_world = sample_world\<lparr>w_is_dir := Inl (Io_Error PermissionDenied ''denied'')\<rparr>"

lemma sample_platform_ok: "platform_ok sample_platform"
  by (simp add: platform_ok_def sample_platform_def hash_order_rev)

definition sample_key :: "ipv4 thread_key" where
  "sample_key = (''podman'', Ipv4 10 88 0 1)"

definition sample_ips :: listen_ips where
  "sample_ips = ([(''podman'', [Ipv4 10 88 0 1])], [])"

lemma sample_started:
  "\<exists>s. serve_start sample_platform sample_settings sample_world None None None = Started s \<and>
     map fst (handles_v4 s) = [sample_key]"
proof -
  have "(case serve_start sample_platform sample_settings sample_world None None None of
      Started s \<Rightarrow> map fst (handles_v4 s) = [sample_key] | _ \<Rightarrow> False)"
    by code_simp
  then show ?thesis by (auto split: startup.splits)
qed

section \<open>What a running server satisfies\<close>

text \<open>C10: In every state a running server can reach, by any sequence of reloads, changes of
  \<open>resolv.conf\<close> and ends of tasks, each address is served at most once and under the key it is
  bound for, no two living tasks hold the same socket, at most three host servers are kept, all
  on port 53, and there is a store; and neither an event nor the next round of the loop makes the
  process panic.  Only a server that has an event stream reaches any state.\<close>

theorem running_server_invariant:
  assumes "platform_ok P" and "\<And>w. admissible w \<Longrightarrow> bind_excludes (w_bind w)"
    and "reachable P cfg watching admissible s"
  shows "handles_ok V4 (port cfg) (handles_v4 s) \<and> handles_ok V6 (port cfg) (handles_v6 s) \<and>
    distinct (held (handles_v4 s) @ held (handles_v6 s)) \<and>
    length (host_nameservers s) \<le> 3 \<and>
    list_all (\<lambda>a. socket_port a = DNS_PORT) (host_nameservers s) \<and> store s \<noteq> None \<and>
    \<not> serve_step P cfg s e Crashed \<and> loop_round watching = Looping"
proof -
  have inv: "server_inv cfg s" and st: "store s \<noteq> None" using reachable_inv [OF assms] by blast+
  then have "read_config_and_spawn P cfg w s \<noteq> Panicked" for w
    by (intro read_config_total [OF assms(1)]) (simp add: server_inv_def)
  then have "\<not> serve_step P cfg s e Crashed"
    by (cases e) (simp_all add: serve_step_simps)
  moreover have "loop_round watching = Looping"
    using reachable_watching [OF assms(3)] by (simp add: loop_round_def)
  ultimately show ?thesis
    using inv st by (simp add: server_inv_def tasks_ok_def sockets_ok_def nameservers_ok_def)
qed

theorem running_server_invariant_witness:
  "\<exists>s. reachable sample_platform sample_settings True (\<lambda>w. w = sample_world) s \<and>
     handles_v4 s \<noteq> [] \<and> distinct (held (handles_v4 s) @ held (handles_v6 s)) \<and> store s \<noteq> None \<and>
     \<not> serve_step sample_platform sample_settings s (Sighup broken_world) Crashed"
proof -
  obtain s where s: "serve_start sample_platform sample_settings sample_world None None None = Started s"
    "map fst (handles_v4 s) = [sample_key]"
    using sample_started by (elim exE conjE)
  have reach: "reachable sample_platform sample_settings True (\<lambda>w. w = sample_world) s"
    by (rule reachable.started [OF refl]) (simp add: s(1))
  have "bind_excludes (w_bind w)" if "w = sample_world" for w
    using that strict_bind_ok by (simp add: sample_world_def)
  note inv = running_server_invariant [OF sample_platform_ok this reach, of "Sighup broken_world"]
  have "handles_v4 s \<noteq> []" using s(2) by auto
  with inv reach show ?thesis by blast
qed

section \<open>Start-up\<close>

text \<open>C11: Start-up is all or nothing: the server only starts, and tells its parent so, when the
  configuration was read, every configured address is served by a task, and the host's servers
  could be read; a single failure makes the start fail.\<close>

theorem startup_all_or_nothing:
  assumes "platform_ok P" and "serve_start P cfg w se oe we = Started s"
  shows "\<exists>log conf ips ns.
    parse_configs (pl_uni P) (pl_order P) (config_path cfg) (w_is_dir w) (w_read_dir w)
      (filter_search_domain cfg) = (log, Inr (conf, ips)) \<and>
    store s = Some conf \<and> ips \<noteq> ([], []) \<and>
    fst ` set (handles_v4 s) = set (expected_threads (fst ips)) \<and>
    fst ` set (handles_v6 s) = set (expected_threads (snd ips)) \<and>
    get_upstream_resolvers (pl_into_io P) (pl_if_index P) (w_resolv_conf w) = Inr ns \<and>
    host_nameservers s = ns \<and> se = None \<and> oe = None \<and> we = None"
proof -
  have run: "read_config_and_spawn P cfg w server_init = Returned s (Inr ())"
    and none: "se = None" "oe = None" "we = None"
    using assms(2) by (simp_all add: serve_start_Started)
  obtain log parsed where parsed: "parse_configs (pl_uni P) (pl_order P) (config_path cfg) (w_is_dir w)
      (w_read_dir w) (filter_search_domain cfg) = (log, parsed)" by fastforce
  obtain conf ips where ok: "parsed = Inr (conf, ips)"
    using run by (cases parsed) (auto simp: read_config_cases parsed)
  let ?s = "(add_log (map Log_Config log) server_init)\<lparr>store := Some conf\<rparr>"
  have tasks: "tasks_ok cfg ?s" by (simp add: tasks_ok_def server_init_def)
  have "stop_server P w ?s \<noteq> Returned s (Inr ())"
    using stop_server_result [OF assms(1) tasks, of w] by (auto split: option.splits)
  then have ips: "ips \<noteq> ([], [])" and spawn: "spawn_servers P cfg w ips ?s = Returned s (Inr ())"
    using run unfolding read_config_cases parsed ok by (auto simp: Let_def split: if_splits)
  show ?thesis
  proof (rule spawn_obtain [OF assms(1) tasks, of w ips])
    fix s1 r1
    assume res: "spawn_servers P cfg w ips ?s = Returned s1 r1" "store s1 = store ?s"
      and ns: "host_nameservers s1 =
        (case get_upstream_resolvers (pl_into_io P) (pl_if_index P) (w_resolv_conf w) of
           Inr ns \<Rightarrow> ns | Inl _ \<Rightarrow> [])"
      and iff: "r1 = Inr () \<longleftrightarrow>
        (\<exists>ns. get_upstream_resolvers (pl_into_io P) (pl_if_index P) (w_resolv_conf w) = Inr ns) \<and>
        fst ` set (handles_v4 s1) = set (expected_threads (fst ips)) \<and>
        fst ` set (handles_v6 s1) = set (expected_threads (snd ips))"
    have "s1 = s" "r1 = Inr ()" using res(1) spawn by simp_all
    with res(2) ns iff ips none show ?thesis unfolding parsed ok by auto
  qed
qed

theorem startup_all_or_nothing_witness:
  "\<exists>s conf. serve_start sample_platform sample_settings sample_world None None None = Started s \<and>
     store s = Some conf \<and>
     host_nameservers s = [Sock4 (Ipv4 1 1 1 1) 53]"
proof -
  obtain s where s: "serve_start sample_platform sample_settings sample_world None None None = Started s"
    using sample_started by blast
  have "get_upstream_resolvers (pl_into_io sample_platform) (pl_if_index sample_platform)
      (w_resolv_conf sample_world) = Inr [Sock4 (Ipv4 1 1 1 1) 53]" by code_simp
  with startup_all_or_nothing [OF sample_platform_ok s] s show ?thesis by auto
qed

section \<open>Reloads that fail\<close>

text \<open>C16: A reload whose configuration cannot be read changes nothing but the log: the store, the
  tasks and the host's servers stay, and the server keeps running.\<close>

theorem failed_reload_keeps_serving:
  assumes "parse_configs (pl_uni P) (pl_order P) (config_path cfg) (w_is_dir w) (w_read_dir w)
      (filter_search_domain cfg) = (log, Inl e)"
  shows "serve_step P cfg s (Sighup w) r \<longleftrightarrow>
    r = Running (s\<lparr>server_log := server_log s @ map Log_Config log @
      [Log_Reload_Failed (Chain ''unable to parse config'' e)]\<rparr>)"
proof -
  have "read_config_and_spawn P cfg w s =
      Returned (add_log (map Log_Config log) s) (Inl (Chain ''unable to parse config'' e))"
    by (simp add: read_config_cases assms)
  then show ?thesis
    unfolding serve_step_sighup by (auto simp: log_reload_def add_log_def)
qed

theorem failed_reload_keeps_serving_witness:
  "\<exists>s s'. serve_start sample_platform sample_settings sample_world None None None = Started s \<and>
     serve_step sample_platform sample_settings s (Sighup broken_world) (Running s') \<and>
     handles_v4 s' = handles_v4 s \<and> store s' = store s \<and>
     server_log s' \<noteq> server_log s"
proof -
  obtain s where s: "serve_start sample_platform sample_settings sample_world None None None = Started s"
    using sample_started by blast
  have "parse_configs (pl_uni sample_platform) (pl_order sample_platform) (config_path sample_settings)
      (w_is_dir broken_world) (w_read_dir broken_world) (filter_search_domain sample_settings) =
      ([], Inl (IOError (Io_Error PermissionDenied ''denied'')))"
    by (simp add: parse_configs_def broken_world_def from_io_error_def)
  from failed_reload_keeps_serving [OF this, of s] s show ?thesis by auto
qed

text \<open>C25: A broken \<open>resolv.conf\<close> is treated in two ways: noticed through inotify it leaves the host's
  servers as they were, but on SIGHUP it empties the list, so that nothing is forwarded for
  requesters without servers of their own until the next good reload.\<close>

theorem broken_resolv_conf:
  assumes "platform_ok P" and "tasks_ok cfg s"
    and "get_upstream_resolvers (pl_into_io P) (pl_if_index P) (w_resolv_conf w) = Inl e"
    and "parse_configs (pl_uni P) (pl_order P) (config_path cfg) (w_is_dir w) (w_read_dir w)
      (filter_search_domain cfg) = (log, Inr (conf, ips))" and "ips \<noteq> ([], [])"
  shows "(serve_step P cfg s (Resolv_Changed (w_resolv_conf w)) r \<longleftrightarrow>
      r = Running (add_log [Log_Nameservers_Failed e] s)) \<and>
    (\<exists>s'. serve_step P cfg s (Sighup w) (Running s') \<and> host_nameservers s' = [] \<and>
      store s' = Some conf)"
proof
  show "serve_step P cfg s (Resolv_Changed (w_resolv_conf w)) r \<longleftrightarrow>
      r = Running (add_log [Log_Nameservers_Failed e] s)"
    using assms(3) by (auto simp: serve_step_resolv)
  let ?s = "(add_log (map Log_Config log) s)\<lparr>store := Some conf\<rparr>"
  have tasks: "tasks_ok cfg ?s" using assms(2) by simp
  show "\<exists>s'. serve_step P cfg s (Sighup w) (Running s') \<and> host_nameservers s' = [] \<and>
      store s' = Some conf"
  proof (rule spawn_obtain [OF assms(1) tasks, of w ips])
    fix s1 r1
    assume res: "spawn_servers P cfg w ips ?s = Returned s1 r1" "store s1 = store ?s"
      and ns: "host_nameservers s1 =
        (case get_upstream_resolvers (pl_into_io P) (pl_if_index P) (w_resolv_conf w) of
           Inr ns \<Rightarrow> ns | Inl _ \<Rightarrow> [])"
    have "read_config_and_spawn P cfg w s = Returned s1 r1"
      using assms(5) res(1) by (simp add: read_config_cases assms(4) Let_def)
    then have "serve_step P cfg s (Sighup w) (Running (log_reload r1 s1))"
      by (rule serve_step.reload)
    moreover have "host_nameservers (log_reload r1 s1) = []" "store (log_reload r1 s1) = Some conf"
      using res(2) ns assms(3) by (auto simp: log_reload_def split: sum.split)
    ultimately show ?thesis by blast
  qed
qed

definition no_resolv_world :: world where
  "no_resolv_world = sample_world\<lparr>w_resolv_conf := Inl (Io_Error OtherKind ''gone'')\<rparr>"

lemma small_parsed:
  "\<exists>log conf ips. parse_configs (pl_uni sample_platform) (pl_order sample_platform)
     (config_path sample_settings) (w_is_dir sample_world) (w_read_dir sample_world)
     (filter_search_domain sample_settings) = (log, Inr (conf, ips)) \<and>
     ips = sample_ips"
proof -
  have "(case parse_configs (pl_uni sample_platform) (pl_order sample_platform)
      (config_path sample_settings) (w_is_dir sample_world) (w_read_dir sample_world)
      (filter_search_domain sample_settings) of
      (log, Inr (conf, ips)) \<Rightarrow> ips = sample_ips | _ \<Rightarrow> False)"
    by code_simp
  then show ?thesis by (auto split: prod.splits sum.splits)
qed

lemma sample_world_fields [simp]:
  "w_is_dir no_resolv_world = w_is_dir sample_world" "w_read_dir no_resolv_world = w_read_dir sample_world"
  "w_bind no_resolv_world = w_bind sample_world" "w_remove_pid no_resolv_world = w_remove_pid sample_world"
  by (simp_all add: no_resolv_world_def)

theorem broken_resolv_conf_witness:
  "\<exists>s s'. serve_start sample_platform sample_settings sample_world None None None = Started s \<and>
     serve_step sample_platform sample_settings s (Sighup no_resolv_world) (Running s') \<and>
     host_nameservers s' = []"
proof -
  obtain s where s: "serve_start sample_platform sample_settings sample_world None None None = Started s"
    using sample_started by blast
  have tasks: "tasks_ok sample_settings s"
  proof -
    have "read_config_and_spawn sample_platform sample_settings sample_world server_init = Returned s (Inr ())"
      using s by (simp add: serve_start_Started)
    moreover have "bind_excludes (w_bind sample_world)"
      using strict_bind_ok by (simp add: sample_world_def)
    ultimately show ?thesis
      using read_config_inv(1) [OF sample_platform_ok _ server_init_inv] by (simp add: server_inv_def)
  qed
  have up: "get_upstream_resolvers (pl_into_io sample_platform) (pl_if_index sample_platform)
      (w_resolv_conf no_resolv_world) = Inl (Chain ''open resolv.conf'' (IOError (Io_Error OtherKind ''gone'')))"
    by (simp add: get_upstream_resolvers_def no_resolv_world_def from_io_error_def)
  obtain log conf ips where parsed: "parse_configs (pl_uni sample_platform) (pl_order sample_platform)
      (config_path sample_settings) (w_is_dir no_resolv_world) (w_read_dir no_resolv_world)
      (filter_search_domain sample_settings) = (log, Inr (conf, ips))" "ips \<noteq> ([], [])"
    using small_parsed by (auto simp: sample_ips_def)
  from broken_resolv_conf [OF sample_platform_ok tasks up parsed] s show ?thesis by blast
qed

section \<open>Reloads that succeed\<close>

lemma sighup_spawns:
  assumes "platform_ok P" and "tasks_ok cfg s"
    and "parse_configs (pl_uni P) (pl_order P) (config_path cfg) (w_is_dir w) (w_read_dir w)
      (filter_search_domain cfg) = (log, Inr (conf, ips))" and "ips \<noteq> ([], [])"
    and "serve_step P cfg s (Sighup w) (Running s')"
  shows "store s' = Some conf \<and> tasks_ok cfg s' \<and>
    reloaded (fst ips) (handles_v4 s) (handles_v4 s') \<and> reloaded (snd ips) (handles_v6 s) (handles_v6 s')"
proof -
  let ?s = "(add_log (map Log_Config log) s)\<lparr>store := Some conf\<rparr>"
  have tasks: "tasks_ok cfg ?s" using assms(2) by simp
  show ?thesis
  proof (rule spawn_obtain [OF assms(1) tasks, of w ips])
    fix s1 r1
    assume res: "spawn_servers P cfg w ips ?s = Returned s1 r1" "tasks_ok cfg s1" "store s1 = store ?s"
      and rel: "reloaded (fst ips) (handles_v4 ?s) (handles_v4 s1)"
        "reloaded (snd ips) (handles_v6 ?s) (handles_v6 s1)"
    have "read_config_and_spawn P cfg w s = Returned s1 r1"
      using assms(4) res(1) by (simp add: read_config_cases assms(3) Let_def)
    with assms(5) have "s' = log_reload r1 s1" by (auto simp: serve_step_sighup)
    with res rel show ?thesis by (auto simp: log_reload_def split: sum.split)
  qed
qed

text \<open>C23: A reload takes effect at once and never for less than the whole file: after SIGHUP the
  store is the one of the new configuration, no task serves an address that is not configured
  any more, and every task whose address stays is the one that was there, whatever goes wrong
  with the new ones.  (The tasks are under their keys before, as in every reachable state.)\<close>

theorem sighup_installs_configuration:
  assumes "platform_ok P" and "tasks_ok cfg s"
    and "parse_configs (pl_uni P) (pl_order P) (config_path cfg) (w_is_dir w) (w_read_dir w)
      (filter_search_domain cfg) = (log, Inr (conf, ips))" and "ips \<noteq> ([], [])"
    and "serve_step P cfg s (Sighup w) (Running s')"
  shows "store s' = Some conf \<and>
    fst ` set (handles_v4 s') \<subseteq> set (expected_threads (fst ips)) \<and>
    fst ` set (handles_v6 s') \<subseteq> set (expected_threads (snd ips)) \<and>
    list_all (\<lambda>k. k \<in> fst ` set (handles_v4 s) \<longrightarrow> map_of (handles_v4 s') k = map_of (handles_v4 s) k)
      (expected_threads (fst ips)) \<and>
    list_all (\<lambda>k. k \<in> fst ` set (handles_v6 s) \<longrightarrow> map_of (handles_v6 s') k = map_of (handles_v6 s) k)
      (expected_threads (snd ips))"
  using sighup_spawns [OF assms] unfolding reloaded_def by blast

lemma sample_started_tasks:
  assumes "serve_start sample_platform sample_settings sample_world None None None = Started s"
  shows "tasks_ok sample_settings s"
proof -
  have "read_config_and_spawn sample_platform sample_settings sample_world server_init = Returned s (Inr ())"
    using assms by (simp add: serve_start_Started)
  moreover have "bind_excludes (w_bind sample_world)"
    using strict_bind_ok by (simp add: sample_world_def)
  ultimately show ?thesis
    using read_config_inv(1) [OF sample_platform_ok _ server_init_inv] by (simp add: server_inv_def)
qed

lemma sample_reload:
  assumes "tasks_ok sample_settings s"
  shows "\<exists>s'. serve_step sample_platform sample_settings s (Sighup sample_world) (Running s')"
proof -
  obtain log conf ips where parsed: "parse_configs (pl_uni sample_platform) (pl_order sample_platform)
      (config_path sample_settings) (w_is_dir sample_world) (w_read_dir sample_world)
      (filter_search_domain sample_settings) = (log, Inr (conf, ips))" "ips \<noteq> ([], [])"
    using small_parsed by (auto simp: sample_ips_def)
  let ?s = "(add_log (map Log_Config log) s)\<lparr>store := Some conf\<rparr>"
  have tasks: "tasks_ok sample_settings ?s" using assms by simp
  show ?thesis
  proof (rule spawn_obtain [OF sample_platform_ok tasks, of sample_world ips])
    fix s1 r1
    assume "spawn_servers sample_platform sample_settings sample_world ips ?s = Returned s1 r1"
    with parsed have "read_config_and_spawn sample_platform sample_settings sample_world s = Returned s1 r1"
      by (simp add: read_config_cases Let_def)
    then show ?thesis using serve_step.reload by blast
  qed
qed

theorem sighup_installs_configuration_witness:
  "\<exists>s s'. serve_start sample_platform sample_settings sample_world None None None = Started s \<and>
     serve_step sample_platform sample_settings s (Sighup sample_world) (Running s') \<and>
     map_of (handles_v4 s') sample_key = map_of (handles_v4 s) sample_key"
proof -
  obtain s where s: "serve_start sample_platform sample_settings sample_world None None None = Started s"
    "map fst (handles_v4 s) = [sample_key]"
    using sample_started by (elim exE conjE)
  note tasks = sample_started_tasks [OF s(1)]
  obtain s' where s': "serve_step sample_platform sample_settings s (Sighup sample_world) (Running s')"
    using sample_reload [OF tasks] by blast
  obtain log conf ips where parsed: "parse_configs (pl_uni sample_platform) (pl_order sample_platform)
      (config_path sample_settings) (w_is_dir sample_world) (w_read_dir sample_world)
      (filter_search_domain sample_settings) = (log, Inr (conf, ips))"
    and ips: "ips = sample_ips"
    using small_parsed by blast
  have "ips \<noteq> ([], [])" by (simp add: ips sample_ips_def)
  note reload = sighup_installs_configuration [OF sample_platform_ok tasks parsed this s']
  have "expected_threads (fst ips) = [sample_key]"
    by (simp add: ips sample_ips_def sample_key_def expected_threads_def)
  moreover have "fst ` set (handles_v4 s) = {sample_key}"
    using arg_cong [OF s(2), of set] by simp
  ultimately have "map_of (handles_v4 s') sample_key =
      map_of (handles_v4 s) sample_key"
    using reload by simp
  with s(1) s' show ?thesis by blast
qed

text \<open>C26: A task that ended is not started again: after accepting a connection failed the handle of
  the task stays in its map, and a reload that still configures the address finds the key there
  and keeps the dead task, so the address is served by nobody although every reload succeeds.\<close>

theorem ended_task_not_restarted:
  assumes "platform_ok P" and "tasks_ok cfg s"
    and "parse_configs (pl_uni P) (pl_order P) (config_path cfg) (w_is_dir w) (w_read_dir w)
      (filter_search_domain cfg) = (log, Inr (conf, ips))" and "ips \<noteq> ([], [])"
    and "map_of (handles_v4 s) k = Some t" and "k \<in> set (expected_threads (fst ips))"
    and "serve_step P cfg s (Task_Ended4 k) (Running s1)"
    and "serve_step P cfg s1 (Sighup w) (Running s2)"
  shows "map_of (handles_v4 s2) k = Some (t\<lparr>task_alive := False\<rparr>)"
proof -
  have s1: "s1 = s\<lparr>handles_v4 := end_task k (handles_v4 s)\<rparr>"
    using assms(7) by (simp add: serve_step_ended4)
  have "map_of (end_task k h) k = map_option (\<lambda>t. t\<lparr>task_alive := False\<rparr>) (map_of h k)"
    for h :: "ipv4 handles"
    by (induction h) (auto simp: end_task_def)
  then have dead: "map_of (handles_v4 s1) k = Some (t\<lparr>task_alive := False\<rparr>)"
    using assms(5) by (simp add: s1)
  have "tasks_ok cfg s1"
    using assms(2) end_task_ok [of V4 "port cfg" "handles_v4 s" k] by (simp add: s1 tasks_ok_def)
  from sighup_spawns [OF assms(1) this assms(3,4,8)]
  have "reloaded (fst ips) (handles_v4 s1) (handles_v4 s2)" by blast
  moreover have "k \<in> fst ` set (handles_v4 s1)" using map_of_SomeD [OF dead] by force
  ultimately show ?thesis using assms(6) dead by (simp add: reloaded_def list_all_iff)
qed

theorem ended_task_not_restarted_witness:
  "\<exists>s s1 s2 t. serve_start sample_platform sample_settings sample_world None None None = Started s \<and>
     serve_step sample_platform sample_settings s (Task_Ended4 sample_key) (Running s1) \<and>
     serve_step sample_platform sample_settings s1 (Sighup sample_world) (Running s2) \<and>
     map_of (handles_v4 s2) sample_key = Some t \<and> \<not> task_alive t"
proof -
  let ?k = sample_key
  obtain s where s: "serve_start sample_platform sample_settings sample_world None None None = Started s"
    "map fst (handles_v4 s) = [?k]"
    using sample_started by (elim exE conjE)
  note tasks = sample_started_tasks [OF s(1)]
  have "?k \<in> fst ` set (handles_v4 s)" using arg_cong [OF s(2), of set] by simp
  then obtain t where t: "map_of (handles_v4 s) ?k = Some t"
    by (metis map_of_eq_None_iff not_None_eq)
  let ?s1 = "s\<lparr>handles_v4 := end_task ?k (handles_v4 s)\<rparr>"
  have ended: "serve_step sample_platform sample_settings s (Task_Ended4 ?k) (Running ?s1)"
    by (rule serve_step.ended4)
  have "tasks_ok sample_settings ?s1" using tasks end_task_ok [of V4 "port sample_settings" "handles_v4 s" ?k]
    by (simp add: tasks_ok_def)
  then obtain s2 where s2: "serve_step sample_platform sample_settings ?s1 (Sighup sample_world) (Running s2)"
    using sample_reload by blast
  obtain log conf ips where parsed: "parse_configs (pl_uni sample_platform) (pl_order sample_platform)
      (config_path sample_settings) (w_is_dir sample_world) (w_read_dir sample_world)
      (filter_search_domain sample_settings) = (log, Inr (conf, ips))"
    and ips: "ips = sample_ips"
    using small_parsed by blast
  have exp: "?k \<in> set (expected_threads (fst ips))" "ips \<noteq> ([], [])"
    by (simp_all add: ips sample_ips_def sample_key_def expected_threads_def)
  from ended_task_not_restarted [OF sample_platform_ok tasks parsed exp(2) t exp(1) ended s2]
  have "map_of (handles_v4 s2) ?k = Some (t\<lparr>task_alive := False\<rparr>)" .
  moreover have "\<not> task_alive (t\<lparr>task_alive := False\<rparr>)" by simp
  ultimately show ?thesis using s(1) ended s2 by blast
qed

section \<open>The end of the process\<close>

text \<open>C24: When no address is configured any more the server removes its pid file, stops every
  task and exits successfully; if the pid file cannot be removed it exits with status 1 at
  once and the tasks are not stopped first.\<close>

theorem empty_configuration_exits:
  assumes "platform_ok P" and "tasks_ok cfg s"
    and "parse_configs (pl_uni P) (pl_order P) (config_path cfg) (w_is_dir w) (w_read_dir w)
      (filter_search_domain cfg) = (log, Inr (conf, ([], [])))"
    and "serve_step P cfg s (Sighup w) r"
  shows "\<exists>code s'. r = Stopped code s' \<and>
    (case w_remove_pid w of
       None \<Rightarrow> code = 0 \<and> handles_v4 s' = [] \<and> handles_v6 s' = []
     | Some err \<Rightarrow> code = 1 \<and> handles_v4 s' = handles_v4 s \<and> handles_v6 s' = handles_v6 s)"
proof -
  let ?s = "(add_log (map Log_Config log) s)\<lparr>store := Some conf\<rparr>"
  have "tasks_ok cfg ?s" using assms(2) by simp
  from stop_server_result [OF assms(1) this, of w] obtain l where
    stop: "stop_server P w ?s = (case w_remove_pid w of
       Some err \<Rightarrow> Exited 1 (add_log [Log_Pid_Removal err] ?s)
     | None \<Rightarrow> Exited 0 (add_log l (?s\<lparr>handles_v4 := [], handles_v6 := []\<rparr>)))" by blast
  have run: "read_config_and_spawn P cfg w s = stop_server P w ?s"
    by (simp add: read_config_cases assms(3) Let_def)
  show ?thesis
  proof (cases "w_remove_pid w")
    case None
    with assms(4) show ?thesis by (simp add: serve_step_sighup run stop)
  next
    case (Some err)
    with assms(4) show ?thesis by (simp add: serve_step_sighup run stop)
  qed
qed

definition empty_world :: world where
  "empty_world = sample_world\<lparr>w_read_dir := Inr []\<rparr>"

theorem empty_configuration_exits_witness:
  "\<exists>s s'. serve_start sample_platform sample_settings sample_world None None None = Started s \<and>
     serve_step sample_platform sample_settings s (Sighup empty_world) (Stopped 0 s') \<and>
     handles_v4 s' = []"
proof -
  obtain s where s: "serve_start sample_platform sample_settings sample_world None None None = Started s"
    using sample_started by blast
  note tasks = sample_started_tasks [OF s]
  obtain conf where parsed: "parse_configs (pl_uni sample_platform) (pl_order sample_platform)
      (config_path sample_settings) (w_is_dir empty_world) (w_read_dir empty_world)
      (filter_search_domain sample_settings) = ([], Inr (conf, ([], [])))"
    by (simp add: parse_configs_def empty_world_def sample_world_def initial_state_def sample_platform_def)
  have pid: "w_remove_pid empty_world = None" by (simp add: empty_world_def sample_world_def)
  have "\<exists>r. serve_step sample_platform sample_settings s (Sighup empty_world) r"
    by (cases "read_config_and_spawn sample_platform sample_settings empty_world s")
      (auto intro: serve_step.intros)
  then obtain r where r: "serve_step sample_platform sample_settings s (Sighup empty_world) r" ..
  from empty_configuration_exits [OF sample_platform_ok tasks parsed r] pid r s show ?thesis by auto
qed

end
