(* ===== verification/Reload.thy ===== *)
theory Reload
  imports Server_Props
begin

text \<open>
  \<open>read_config_and_spawn\<close> of \<open>src/server/serve.rs\<close> at the grain at which other tasks run between
  its parts.  The tasks that serve queries go on while a reload is under way, so they can see the
  new store with the old servers of the host, or the new tasks of one family with the old ones of
  the other.  A reload is cut into four phases at the points where its effects become visible:
  the store is swapped, the servers of the host are replaced, the IPv4 tasks are brought up to
  date, then the IPv6 tasks.  Inside a phase a query cannot tell the order of the effects.
\<close>

section \<open>Phases\<close>

text \<open>What a reload still has to do, with the listen addresses and the errors so far.\<close>

datatype phase =
    Store_Swapped world listen_ips
  | Resolvers_Set world listen_ips "aardvark_error list"
  | V4_Reloaded world listen_ips "aardvark_error list"

datatype progress = Next phase server_state | Done spawn_outcome

definition reload_begin :: "'n platform \<Rightarrow> settings \<Rightarrow> world \<Rightarrow> server_state \<Rightarrow> progress" where
  "reload_begin P cfg w s =
     (case parse_configs (pl_uni P) (pl_order P) (config_path cfg) (w_is_dir w) (w_read_dir w)
             (filter_search_domain cfg) of
        (clog, parsed) \<Rightarrow>
          (let s = add_log (map Log_Config clog) s
           in case wrap (\<lambda>e. e) parsed ''unable to parse config'' of
                Inl e \<Rightarrow> Done (Returned s (Inl e))
              | Inr (conf, ips) \<Rightarrow> Next (Store_Swapped w ips) (s\<lparr>store := Some conf\<rparr>)))"

definition set_resolvers ::
  "'n platform \<Rightarrow> world \<Rightarrow> server_state \<Rightarrow> server_state \<times> aardvark_error list" where
  "set_resolvers P w s =
     (case get_upstream_resolvers (pl_into_io P) (pl_if_index P) (w_resolv_conf w) of
        Inr ns \<Rightarrow> (s\<lparr>host_nameservers := ns\<rparr>, errors_new)
      | Inl err \<Rightarrow>
          (s\<lparr>host_nameservers := []\<rparr>, errors_push errors_new
             (error_wrap ''failed to get upstream nameservers, dns forwarding will not work'' err)))"

fun run_phase :: "'n platform \<Rightarrow> settings \<Rightarrow> phase \<Rightarrow> server_state \<Rightarrow> progress" where
  "run_phase P cfg (Store_Swapped w ips) s =
     (if fst ips = [] \<and> snd ips = [] then Done (stop_server P w s)
      else (case set_resolvers P w s of (s, errors) \<Rightarrow> Next (Resolvers_Set w ips errors) s))"
| "run_phase P cfg (Resolvers_Set w ips errors) s =
     (case stop_and_start_threads V4 (pl_order4 P) (pl_await P) (port cfg) (w_bind w)
             (held (handles_v6 s)) (fst ips) (handles_v4 s) of
        None \<Rightarrow> Done Panicked
      | Some (h4, log4, r4) \<Rightarrow>
          Next (V4_Reloaded w ips (push_failure errors r4)) (add_log log4 (s\<lparr>handles_v4 := h4\<rparr>)))"
| "run_phase P cfg (V4_Reloaded w ips errors) s =
     (case stop_and_start_threads V6 (pl_order6 P) (pl_await P) (port cfg) (w_bind w)
             (held (handles_v4 s)) (snd ips) (handles_v6 s) of
        None \<Rightarrow> Done Panicked
      | Some (h6, log6, r6) \<Rightarrow>
          (let errors = push_failure errors r6
           in Done (Returned (add_log log6 (s\<lparr>handles_v6 := h6\<rparr>))
                (if errors_is_empty errors then Inr () else Inl (ErrorList errors)))))"

definition continue :: "'n platform \<Rightarrow> settings \<Rightarrow> progress \<Rightarrow> progress" where
  "continue P cfg p = (case p of Next ph s \<Rightarrow> run_phase P cfg ph s | Done r \<Rightarrow> Done r)"

section \<open>The phases refine the reload\<close>

lemma continue_simps [simp]:
  "continue P cfg (Next ph s) = run_phase P cfg ph s"
  "continue P cfg (Done r) = Done r"
  by (simp_all add: continue_def)

lemma spawn_phases:
  "spawn_servers P cfg w ips s =
     (case set_resolvers P w s of (s, errors) \<Rightarrow>
        (case continue P cfg (run_phase P cfg (Resolvers_Set w ips errors) s) of
           Done r \<Rightarrow> r | Next ph s \<Rightarrow> Panicked))"
  by (auto simp: spawn_servers_def set_resolvers_def Let_def split: sum.split option.split)

text \<open>The reload cut into phases is the reload of the source: run one after the other without
  interruption, the phases end within four steps, with exactly the outcome, the state and the
  errors of \<open>read_config_and_spawn\<close>.\<close>

theorem phases_refine_reload:
  "continue P cfg (continue P cfg (continue P cfg (reload_begin P cfg w s))) =
     Done (read_config_and_spawn P cfg w s)"
proof -
  obtain log parsed where parsed: "parse_configs (pl_uni P) (pl_order P) (config_path cfg) (w_is_dir w)
      (w_read_dir w) (filter_search_domain cfg) = (log, parsed)" by fastforce
  show ?thesis
  proof (cases parsed)
    case (Inl e)
    with parsed show ?thesis by (simp add: reload_begin_def read_config_and_spawn_def wrap_def Let_def)
  next
    case (Inr p)
    obtain conf ips where p: "p = (conf, ips)" by (cases p)
    let ?s = "(add_log (map Log_Config log) s)\<lparr>store := Some conf\<rparr>"
    have run: "read_config_and_spawn P cfg w s =
        (if fst ips = [] \<and> snd ips = [] then stop_server P w ?s else spawn_servers P cfg w ips ?s)"
      "reload_begin P cfg w s = Next (Store_Swapped w ips) ?s"
      using parsed Inr p by (simp_all add: reload_begin_def read_config_and_spawn_def wrap_def Let_def)
    show ?thesis
    proof (cases "fst ips = [] \<and> snd ips = []")
      case True
      with run show ?thesis by simp
    next
      case False
      obtain s1 errors where s1: "set_resolvers P w ?s = (s1, errors)" by fastforce
      have "run_phase P cfg (Store_Swapped w ips) ?s = Next (Resolvers_Set w ips errors) s1"
        using False s1 by auto
      moreover have "read_config_and_spawn P cfg w s =
          (case continue P cfg (run_phase P cfg (Resolvers_Set w ips errors) s1) of
             Done r \<Rightarrow> r | Next ph s \<Rightarrow> Panicked)"
        using run(1) False s1 unfolding spawn_phases by auto
      moreover have "\<exists>r. continue P cfg (run_phase P cfg (Resolvers_Set w ips errors) s1) = Done r"
        by (auto simp: Let_def split: option.split)
      ultimately show ?thesis using run(2) by auto
    qed
  qed
qed

section \<open>What holds between the phases\<close>

text \<open>The world a phase works with, and the phases of a reload that may be under way.\<close>

fun phase_world :: "phase \<Rightarrow> world" where
  "phase_world (Store_Swapped w ips) = w"
| "phase_world (Resolvers_Set w ips errors) = w"
| "phase_world (V4_Reloaded w ips errors) = w"

lemma set_resolvers_fields:
  assumes "set_resolvers P w s = (s', errors)"
  shows "store s' = store s" "handles_v4 s' = handles_v4 s" "handles_v6 s' = handles_v6 s"
    "nameservers_ok (host_nameservers s')"
  using assms get_upstream_ok
  by (auto simp: set_resolvers_def split: sum.splits)

lemma run_phase_step:
  assumes "platform_ok P" and "bind_excludes (w_bind (phase_world ph))" and "server_inv cfg s"
  shows "case run_phase P cfg ph s of
      Next ph' s' \<Rightarrow> server_inv cfg s' \<and> store s' = store s \<and> phase_world ph' = phase_world ph
    | Done (Returned s' r) \<Rightarrow> server_inv cfg s' \<and> store s' = store s
    | Done (Exited code s') \<Rightarrow> True
    | Done Panicked \<Rightarrow> False"
proof -
  from assms(1) have orders: "hash_order (pl_order4 P)" "hash_order (pl_order6 P)"
    by (simp_all add: platform_ok_def)
  from assms(3) have ok: "handles_ok V4 (port cfg) (handles_v4 s)" "handles_ok V6 (port cfg) (handles_v6 s)"
    and socks: "distinct (held (handles_v4 s) @ held (handles_v6 s))"
      "distinct (held (handles_v6 s) @ held (handles_v4 s))"
    by (auto simp: server_inv_def tasks_ok_def sockets_ok_def)
  show ?thesis
  proof (cases ph)
    case (Store_Swapped w ips)
    show ?thesis
    proof (cases "fst ips = [] \<and> snd ips = []")
      case True
      have "stop_server P w s \<noteq> Panicked" "stop_server P w s \<noteq> Returned s' r" for s' r
        using stop_server_result [OF assms(1), of cfg s w] assms(3)
        by (auto simp: server_inv_def split: option.splits)
      with True Store_Swapped show ?thesis by (auto split: spawn_outcome.split)
    next
      case False
      obtain s1 errors where s1: "set_resolvers P w s = (s1, errors)" by fastforce
      note fields = set_resolvers_fields [OF s1]
      have "server_inv cfg s1"
        using assms(3) fields by (simp add: server_inv_def tasks_ok_def sockets_ok_def)
      then show ?thesis using False s1 fields(1) unfolding Store_Swapped by auto
    qed
  next
    case (Resolvers_Set w ips errors)
    obtain h4 log4 r4 where 4: "stop_and_start_threads V4 (pl_order4 P) (pl_await P) (port cfg) (w_bind w)
        (held (handles_v6 s)) (fst ips) (handles_v4 s) = Some (h4, log4, r4)" "handles_ok V4 (port cfg) h4"
      by (rule reload_obtain [OF orders(1) ok(1)])
    have "distinct (held (handles_v6 s) @ held h4)"
      using reload_sockets [OF orders(1) ok(1) _ socks(2) 4(1)] assms(2) Resolvers_Set by simp
    with 4 assms(3) Resolvers_Set show ?thesis
      by (auto simp: server_inv_def tasks_ok_def sockets_ok_def add_log_def)
  next
    case (V4_Reloaded w ips errors)
    obtain h6 log6 r6 where 6: "stop_and_start_threads V6 (pl_order6 P) (pl_await P) (port cfg) (w_bind w)
        (held (handles_v4 s)) (snd ips) (handles_v6 s) = Some (h6, log6, r6)" "handles_ok V6 (port cfg) h6"
      by (rule reload_obtain [OF orders(2) ok(2)])
    have "distinct (held (handles_v4 s) @ held h6)"
      using reload_sockets [OF orders(2) ok(2) _ socks(1) 6(1)] assms(2) V4_Reloaded by simp
    with 6 assms(3) V4_Reloaded show ?thesis
      by (auto simp: server_inv_def tasks_ok_def sockets_ok_def add_log_def Let_def)
  qed
qed

end
