(* ===== verification/Commands.thy ===== *)
theory Commands
  imports Server_Props
begin

text \<open>
  The commands: \<open>Run::exec\<close> of \<open>src/commands/run.rs\<close> with \<open>create_pid\<close> of \<open>src/server/serve.rs\<close>, the
  text \<open>version\<close> prints, and the defaults and exit status of \<open>src/main.rs\<close>.  \<open>fork\<close> splits the
  process: the parent waits on a pipe for a byte of the child, which is the server.
\<close>

section \<open>The pid file\<close>

text \<open>What is written to the pid file, or the error of creating or writing it.\<close>

definition create_pid :: "io_error option \<Rightarrow> (string \<Rightarrow> io_error option) \<Rightarrow> int \<Rightarrow> string aardvark_result" where
  "create_pid create write_all pid =
     (case create of
        Some err \<Rightarrow> Inl (error_msg (''Unable to get process pid: '' @ io_text err))
      | None \<Rightarrow>
          (let server_pid = show_int 10 pid
           in case write_all server_pid of
                Some err \<Rightarrow> Inl (error_msg (''Unable to write pid to file: '' @ io_text err))
              | None \<Rightarrow> Inr server_pid))"

section \<open>The run command\<close>

text \<open>How a process of the command ends: it returns, keeps serving, exits or panics.\<close>

datatype exec_outcome =
    Finished "unit aardvark_result"
  | Serving server_state
  | Process_Exit int
  | Process_Panic

text \<open>The child: what it writes into the pipe, which only \<open>serve\<close> does, and how it ends.\<close>

definition exec_child :: "string aardvark_result \<Rightarrow> string \<times> startup \<Rightarrow> string \<times> exec_outcome" where
  "exec_child pid_file served =
     (case pid_file of
        Inl er \<Rightarrow> ([], Finished (Inl (error_msg (''Error creating aardvark pid '' @ show_error er))))
      | Inr _ \<Rightarrow>
          (case served of (written, st) \<Rightarrow>
             (written,
              case st of
                Start_Failed er \<Rightarrow>
                  Finished (Inl (error_msg (''Error starting server '' @ show_error er)))
              | Started s \<Rightarrow> Serving s
              | Start_Exited code \<Rightarrow> Process_Exit code
              | Start_Panicked \<Rightarrow> Process_Panic)))"

text \<open>
  The parent; \<open>read\<close> is what the other end of the pipe has written when the call returns, which is
  when there is a byte or that end is closed, or the error of the call.  The buffer has one byte.
\<close>

definition exec_parent :: "('n \<Rightarrow> io_error) \<Rightarrow> 'n + string \<Rightarrow> unit aardvark_result" where
  "exec_parent into_io read =
     (case read of
        Inl e \<Rightarrow> Inl (from_nix_error into_io e)
      | Inr written \<Rightarrow>
          (let i = length (take 1 written)
           in if i = 0 then Inl (error_msg ''Error from child process'') else Inr ()))"

text \<open>\<open>fork\<close>: its error, or the two processes; \<open>show_errno\<close> prints an error of the nix crate.\<close>

datatype 'n fork_result = Fork_Error 'n | Fork_Parent | Fork_Child

definition exec ::
  "('n \<Rightarrow> io_error) \<Rightarrow> ('n \<Rightarrow> string) \<Rightarrow> 'n option \<Rightarrow> 'n fork_result \<Rightarrow> 'n + string \<Rightarrow>
   string aardvark_result \<Rightarrow> string \<times> startup \<Rightarrow> string \<times> exec_outcome" where
  "exec into_io show_errno pipe fork read pid_file served =
     (case pipe of
        Some e \<Rightarrow> ([], Finished (Inl (from_nix_error into_io e)))
      | None \<Rightarrow>
          (case fork of
             Fork_Parent \<Rightarrow> ([], Finished (exec_parent into_io read))
           | Fork_Child \<Rightarrow> exec_child pid_file served
           | Fork_Error err \<Rightarrow>
               ([], Finished (Inl (error_msg (''fork failed with error: '' @ show_errno err))))))"

section \<open>Version and main\<close>

record info =
  info_version :: string
  info_commit :: string
  info_build_time :: string
  info_target :: string

definition quoted :: "string \<Rightarrow> string" where
  "quoted s = CHR 0x22 # s @ [CHR 0x22]"

definition show_info :: "info \<Rightarrow> string" where
  "show_info i = join [CHR 0x0A]
     [''{'',
      ''  '' @ quoted ''version'' @ '': '' @ quoted (info_version i) @ '','',
      ''  '' @ quoted ''commit'' @ '': '' @ quoted (info_commit i) @ '','',
      ''  '' @ quoted ''build_time'' @ '': '' @ quoted (info_build_time i) @ '','',
      ''  '' @ quoted ''target'' @ '': '' @ quoted (info_target i),
      ''}'']"

datatype subcommand = Run | Version

record opts =
  opt_config :: "string option"
  opt_port :: "u16 option"
  opt_filter_search_domain :: "string option"
  subcmd :: subcommand

definition opts_settings :: "bool \<Rightarrow> opts \<Rightarrow> settings" where
  "opts_settings no_proxy_set o' =
     \<lparr>config_path = (case opt_config o' of Some d \<Rightarrow> d | None \<Rightarrow> ''/dev/stdin''),
      port = (case opt_port o' of Some p \<Rightarrow> p | None \<Rightarrow> 5533),
      filter_search_domain =
        (case opt_filter_search_domain o' of Some d \<Rightarrow> d | None \<Rightarrow> ''.dns.podman''),
      no_proxy_env = no_proxy_set\<rparr>"

text \<open>The log level: \<open>level_from_str\<close> is code of the log crate; the text goes to the error output.\<close>

definition log_level :: "(string \<Rightarrow> string + 'l) \<Rightarrow> 'l \<Rightarrow> string option \<Rightarrow> 'l \<times> string" where
  "log_level level_from_str info_level rust_log =
     (case rust_log of
        Some val \<Rightarrow>
          (case level_from_str val of
             Inr level \<Rightarrow> (level, [])
           | Inl e \<Rightarrow> (info_level, ''failed to parse RUST_LOG level: '' @ e @ [CHR 0x0A]))
      | None \<Rightarrow> (info_level, []))"

text \<open>The end of \<open>main\<close>: exit status and error output; \<open>None\<close> while the command is serving.\<close>

definition main_exit :: "exec_outcome \<Rightarrow> (int \<times> string) option" where
  "main_exit outcome =
     (case outcome of
        Finished (Inr _) \<Rightarrow> Some (0, [])
      | Finished (Inl err) \<Rightarrow> Some (1, show_error err @ [CHR 0x0A])
      | Serving s \<Rightarrow> None
      | Process_Exit code \<Rightarrow> Some (code, [])
      | Process_Panic \<Rightarrow> Some (101, []))"

text \<open>\<open>Version::exec\<close>.\<close>

definition version_exec :: "info \<Rightarrow> string" where
  "version_exec i = show_info i @ [CHR 0x0A]"

text \<open>
  The descriptors that are left open: \<open>close_range\<close> closes all from 3 on, and does nothing when the
  kernel does not have it, an error the program ignores.
\<close>

definition close_inherited :: "bool \<Rightarrow> nat list \<Rightarrow> nat list" where
  "close_inherited supported fds = (if supported then filter (\<lambda>fd. fd < 3) fds else fds)"

text \<open>
  The logger: no syslog is no error; what \<open>set_boxed_logger\<close> answers decides whether the level is
  set, and whether there is a message on the error output.
\<close>

definition init_logger :: "bool \<Rightarrow> string option \<Rightarrow> 'l \<Rightarrow> 'l option \<times> string" where
  "init_logger syslog_connects set_error level =
     (if syslog_connects
      then (case set_error of
              None \<Rightarrow> (Some level, [])
            | Some e \<Rightarrow> (None, ''failed to initialize syslog logger: '' @ e @ [CHR 0x0A]))
      else (None, []))"

text \<open>
  \<open>main\<close>.  \<open>args\<close> is what the option parser makes of the command line: the options, or its own
  exit status and texts, with which it ends the process.  The result is the open descriptors, the
  level of the logger, the two outputs, and the exit status, \<open>None\<close> while the command is serving.
\<close>

record 'l main_result =
  open_fds :: "nat list"
  max_level :: "'l option"
  stdout :: string
  stderr :: string
  exit_status :: "int option"

definition main ::
  "info \<Rightarrow> bool \<Rightarrow> nat list \<Rightarrow> (string \<Rightarrow> string + 'l) \<Rightarrow> 'l \<Rightarrow> string option \<Rightarrow> bool \<Rightarrow> string option \<Rightarrow>
   (int \<times> string \<times> string) + opts \<Rightarrow> bool \<Rightarrow> (settings \<Rightarrow> exec_outcome) \<Rightarrow> 'l main_result" where
  "main i supported fds level_from_str info_level rust_log syslog_connects set_error args no_proxy_set run_exec =
     (let (level, err1) = log_level level_from_str info_level rust_log;
          (max, err2) = init_logger syslog_connects set_error level;
          start = \<lparr>open_fds = close_inherited supported fds, max_level = max, stdout = [], stderr = err1 @ err2, exit_status = None\<rparr>
      in case args of
           Inl (code, out, err) \<Rightarrow>
             start\<lparr>stdout := out, stderr := stderr start @ err, exit_status := Some code\<rparr>
         | Inr o' \<Rightarrow>
             (let (out, result) = (case subcmd o' of
                     Run \<Rightarrow> ([], run_exec (opts_settings no_proxy_set o'))
                   | Version \<Rightarrow> (version_exec i, Finished (Inr ())))
              in case main_exit result of
                   None \<Rightarrow> start\<lparr>stdout := out\<rparr>
                 | Some (code, err) \<Rightarrow>
                     start\<lparr>stdout := out, stderr := stderr start @ err, exit_status := Some code\<rparr>))"

section \<open>Properties\<close>

text \<open>Logging never decides how a command ends, and an error of it is the last line of the output.\<close>

lemma main_status:
  "exit_status (main i supported fds level_from_str info_level rust_log syslog_connects set_error (Inr o') np run_exec) =
     (case subcmd o' of
        Version \<Rightarrow> Some 0
      | Run \<Rightarrow> map_option fst (main_exit (run_exec (opts_settings np o'))))"
  by (simp add: main_def Let_def main_exit_def split: prod.split subcommand.split option.split)

lemma main_error:
  assumes "subcmd o' = Run" and "run_exec (opts_settings np o') = Finished (Inl err)"
  shows "ends_with (stderr (main i supported fds level_from_str info_level rust_log syslog_connects set_error (Inr o')
      np run_exec)) (show_error err @ [CHR 0x0A])"
  using assms by (simp add: main_def Let_def main_exit_def ends_with_def split: prod.split)

lemma exec_parent_read [simp]:
  "exec_parent into_io (Inr written) =
     (if written = [] then Inl (error_msg ''Error from child process'') else Inr ())"
  by (cases written) (simp_all add: exec_parent_def)

text \<open>C12: The command that starts the server reports success exactly when the pid file was written and
  the start-up went through: the configuration was read, every configured address is bound, the
  host's servers were read and the process detached.  On every other path the child has not
  written the byte its parent waits for, and the command fails with the parent's message while
  no child is serving.  After a success the child serves as long as it has an event stream for
  \<open>resolv.conf\<close>; without one it has panicked.\<close>

theorem parent_succeeds_iff_serving:
  assumes "exec (pl_into_io P) show_errno None Fork_Child read pid_file
      (serve P cfg w se oe we event_stream) = (written, child)"
    and "exec (pl_into_io P) show_errno None Fork_Parent (Inr written) pid_file' served' = (other, parent)"
  shows "(parent = Finished (Inr ()) \<longleftrightarrow>
      (\<exists>pid s. pid_file = Inr pid \<and> serve_start P cfg w se oe we = Started s)) \<and>
    (parent = Finished (Inr ()) \<longrightarrow>
      (if event_stream then \<exists>s. serve_start P cfg w se oe we = Started s \<and> child = Serving s
       else child = Process_Panic)) \<and>
    (parent \<noteq> Finished (Inr ()) \<longrightarrow> main_exit parent = Some (1, ''Error from child process'' @ [CHR 0x0A]) \<and>
      (\<forall>s. child \<noteq> Serving s))"
proof -
  let ?st = "serve_start P cfg w se oe we"
  obtain bytes st where served: "serve P cfg w se oe we event_stream = (bytes, st)" by fastforce
  have bytes: "bytes \<noteq> [] \<longleftrightarrow> (\<exists>s. ?st = Started s)" and st: "st = enter_loop event_stream ?st"
    using serve_bytes [where P = P and cfg = cfg and w = w and se = se and oe = oe and we = we
        and event_stream = event_stream] by (simp_all add: served)
  have child: "exec_child pid_file (bytes, st) = (written, child)"
    using assms(1) by (simp add: exec_def served)
  have parent: "parent = Finished (if written = [] then Inl (error_msg ''Error from child process'') else Inr ())"
    using assms(2) by (simp add: exec_def)
  show ?thesis
  proof (cases "\<exists>pid s. pid_file = Inr pid \<and> ?st = Started s")
    case True
    then obtain pid s where started: "pid_file = Inr pid" "?st = Started s" by blast
    then have "written \<noteq> []" "child = (if event_stream then Serving s else Process_Panic)"
      using child bytes by (auto simp: exec_child_def st enter_loop_def loop_round_def)
    with started parent show ?thesis by simp
  next
    case False
    then have "written = []" "child \<noteq> Serving s" for s
      using child bytes by (auto simp: exec_child_def st split: sum.splits startup.splits)
    with False parent show ?thesis by (auto simp: main_exit_def error_msg_def)
  qed
qed

lemma sample_child:
  assumes "serve_start sample_platform sample_settings sample_world None None None = Started s"
  shows "exec (pl_into_io sample_platform) (\<lambda>_. []) None Fork_Child (Inr []) (Inr ''42'')
      (serve sample_platform sample_settings sample_world None None None event_stream) =
    (''1'', if event_stream then Serving s else Process_Panic)"
proof -
  have "serve_ready sample_platform sample_settings sample_world None None None = (''1'', Started s)"
    using assms serve_ready_cases [of None None None sample_platform sample_settings sample_world]
    by (auto simp: serve_start_def)
  then show ?thesis
    by (simp add: exec_def exec_child_def serve_def enter_loop_def loop_round_def)
qed

theorem parent_succeeds_iff_serving_witness:
  "snd (exec (pl_into_io sample_platform) (\<lambda>_. []) None Fork_Parent
     (Inr (fst (exec (pl_into_io sample_platform) (\<lambda>_. []) None Fork_Child (Inr []) (Inr ''42'')
       (serve sample_platform sample_settings sample_world None None None True)))) (Inr []) ([], Start_Panicked)) =
   Finished (Inr ())"
proof -
  obtain s where s: "serve_start sample_platform sample_settings sample_world None None None = Started s"
    using sample_started by blast
  obtain other parent where parent: "exec (pl_into_io sample_platform) (\<lambda>_. []) None Fork_Parent
      (Inr ''1'') (Inr []) ([], Start_Panicked) = (other, parent)" by fastforce
  from parent_succeeds_iff_serving [OF sample_child [OF s, of True] parent] s
  have "parent = Finished (Inr ())" by simp
  with parent sample_child [OF s, of True] show ?thesis by simp
qed

text \<open>C13: A failure of inotify kills the server although its start was reported as a success: if any of
  the three steps of watching \<open>resolv.conf\<close> fails, the child panics on the first round of its loop,
  having written the byte its parent takes for success; the parent exits with status 0, the
  child with 101, and no state of a running server is reached.  The messages logged for these
  failures only announce that the host's servers will not be updated.\<close>

theorem inotify_failure_kills_server:
  assumes "serve_start P cfg w se oe we = Started s" and "pid_file = Inr pid"
    and "event_stream = get_inotify_event_stream init_error watch_error stream_error"
    and "\<not> (init_error = None \<and> watch_error = None \<and> stream_error = None)"
    and "exec (pl_into_io P) show_errno None Fork_Child read pid_file
      (serve P cfg w se oe we event_stream) = (written, child)"
    and "exec (pl_into_io P) show_errno None Fork_Parent (Inr written) pid_file' served' = (other, parent)"
  shows "main_exit parent = Some (0, []) \<and> main_exit child = Some (101, []) \<and>
    \<not> reachable P cfg event_stream admissible s'"
proof -
  have no_stream: "\<not> event_stream"
    using assms(3,4) by (auto simp: get_inotify_event_stream_def split: option.splits)
  obtain bytes st where served: "serve P cfg w se oe we event_stream = (bytes, st)" by fastforce
  have "bytes \<noteq> []" "st = Start_Panicked"
    using serve_bytes [where P = P and cfg = cfg and w = w and se = se and oe = oe and we = we
        and event_stream = event_stream, unfolded served] no_stream assms(1)
    by (simp_all add: enter_loop_def loop_round_def)
  then have "written \<noteq> []" "child = Process_Panic"
    using assms(2,5) by (simp_all add: exec_def exec_child_def served)
  with no_stream assms(6) reachable_watching [of P cfg event_stream admissible s'] show ?thesis
    by (auto simp: exec_def main_exit_def)
qed

theorem inotify_failure_kills_server_witness:
  "\<exists>parent. exec (pl_into_io sample_platform) (\<lambda>_. []) None Fork_Parent (Inr ''1'') (Inr []) ([], Start_Panicked) =
      ([], parent) \<and>
    exec (pl_into_io sample_platform) (\<lambda>_. []) None Fork_Child (Inr []) (Inr ''42'')
      (serve sample_platform sample_settings sample_world None None None
        (get_inotify_event_stream (Some (Io_Error OtherKind ''too many'')) None None)) = (''1'', Process_Panic) \<and>
    main_exit parent = Some (0, []) \<and> main_exit Process_Panic = Some (101, [])"
proof -
  let ?stream = "get_inotify_event_stream (Some (Io_Error OtherKind ''too many'')) None None"
  obtain s where s: "serve_start sample_platform sample_settings sample_world None None None = Started s"
    using sample_started by blast
  have "\<not> ?stream" by (simp add: get_inotify_event_stream_def)
  with sample_child [OF s, of ?stream] have child: "exec (pl_into_io sample_platform) (\<lambda>_. []) None Fork_Child
      (Inr []) (Inr ''42'') (serve sample_platform sample_settings sample_world None None None ?stream) =
      (''1'', Process_Panic)" by simp
  obtain parent where parent: "exec (pl_into_io sample_platform) (\<lambda>_. []) None Fork_Parent
      (Inr ''1'') (Inr []) ([], Start_Panicked) = ([], parent)" by (simp add: exec_def)
  from inotify_failure_kills_server [OF s refl refl _ child parent] child parent show ?thesis by blast
qed

end
