(* ===== verification/System.thy ===== *)
theory System
  imports Commands
begin

text \<open>
  Lemmas that join the components: the configuration loader with the answers of \<open>process_message\<close>,
  and with the upstream servers a query may reach.
\<close>

section \<open>Answers from a loaded configuration\<close>

text \<open>The addresses a requester may learn for a name, in terms of the configuration files.\<close>

definition visible_to ::
  "network_config list \<Rightarrow> ip_addr \<Rightarrow> string \<Rightarrow> string \<Rightarrow> ip_addr set" where
  "visible_to cfgs requester listen_net name =
     {ip. \<exists>net. may_see cfgs requester listen_net net \<and> named cfgs net name ip}"

lemma lookup_visible_to:
  assumes "hash_order order" and "store_of order cfgs domain = (be, l4, l6)"
  shows "(case lookup uni be requester listen_net q of
      None \<Rightarrow> visible_to cfgs requester listen_net (lookup_name uni (search_domain be) q) = {}
    | Some ips \<Rightarrow> ips \<noteq> [] \<and>
        set ips = visible_to cfgs requester listen_net (lookup_name uni (search_domain be) q))"
proof -
  have set: "set (or_default (lookup uni be requester listen_net q)) =
      visible_to cfgs requester listen_net (lookup_name uni (search_domain be) q)"
    unfolding visible_to_def using store_lookup [OF assms] by blast
  show ?thesis
  proof (cases "lookup uni be requester listen_net q")
    case None
    with set show ?thesis by simp
  next
    case (Some ips)
    then have "ips \<noteq> []" by (auto simp: lookup_visible Let_def split: if_splits)
    with Some set show ?thesis by simp
  qed
qed

lemma no_local_answer:
  assumes "hickory_ok H" and "parse_dns_msg H (bytes, src) = Some (n, rt, req)"
    and "local_answer H uni data src n rt req = None"
  shows "process_message H uni data (bytes, src) proto =
      Forwarded (upstream_servers data (socket_ip src)) src req proto \<or>
    (\<exists>m. process_message H uni data (bytes, src) proto = Replied (reply H src m) \<and>
       response_code (reply_message H m) = NXDomain \<and> answers (reply_message H m) = answers req)"
proof (cases "may_forward data (socket_ip src) (name_to_string H n)")
  case True
  with assms show ?thesis by (simp add: process_message_def)
next
  case False
  with assms have "process_message H uni data (bytes, src) proto =
      Replied (reply H src ((into_response H req)\<lparr>response_code := NXDomain\<rparr>))"
    by (simp add: process_message_def)
  moreover have "response_code (reply_message H ((into_response H req)\<lparr>response_code := NXDomain\<rparr>)) = NXDomain"
    "answers (reply_message H ((into_response H req)\<lparr>response_code := NXDomain\<rparr>)) = answers req"
    using assms(1) by simp_all
  ultimately show ?thesis by blast
qed

text \<open>The complete answer to an address query, from the configuration files.\<close>

lemma address_answer:
  assumes "hickory_ok H" and "hash_order order"
    and "store_of order cfgs domain = (backend data, l4, l6)"
    and "parse_dns_msg H (bytes, src) = Some (n, rt, req)" and "address_type rt"
    and "name = lookup_name uni (search_domain (backend data)) (name_to_string H n)"
  shows "(visible_to cfgs (socket_ip src) (network_name data) name \<noteq> {} \<longrightarrow>
      (\<exists>m ips. process_message H uni data (bytes, src) proto = Replied (reply H src m) \<and>
         set ips = visible_to cfgs (socket_ip src) (network_name data) name \<and>
         answers (reply_message H m) =
           answers req @ map (from_rdata H n 0) (List.map_filter (address_data rt) ips))) \<and>
    (visible_to cfgs (socket_ip src) (network_name data) name = {} \<longrightarrow>
      process_message H uni data (bytes, src) proto =
        Forwarded (upstream_servers data (socket_ip src)) src req proto \<or>
      (\<exists>m. process_message H uni data (bytes, src) proto = Replied (reply H src m) \<and>
         response_code (reply_message H m) = NXDomain \<and> answers (reply_message H m) = answers req))"
proof -
  note look = lookup_visible_to [OF assms(2,3), where uni = uni and requester = "socket_ip src"
      and listen_net = "network_name data" and q = "name_to_string H n", folded assms(6)]
  show ?thesis
  proof (cases "lookup uni (backend data) (socket_ip src) (network_name data) (name_to_string H n)")
    case None
    then have "local_answer H uni data src n rt req = None"
      by (simp add: local_answer_address [OF assms(5)] reply_ip_answers [OF assms(1)])
    from no_local_answer [OF assms(1,4) this] None look show ?thesis by simp
  next
    case (Some ips)
    let ?m = "req\<lparr>answers := answers req @
      map (from_rdata H n 0) (List.map_filter (address_data rt) ips)\<rparr>"
    have "local_answer H uni data src n rt req = Some ?m"
      using Some by (simp add: local_answer_address [OF assms(5)] reply_ip_answers [OF assms(1)])
    then have "process_message H uni data (bytes, src) proto = Replied (reply H src ?m)"
      using assms(4) by (simp add: process_message_def)
    moreover have "answers (reply_message H ?m) =
        answers req @ map (from_rdata H n 0) (List.map_filter (address_data rt) ips)"
      using assms(1) by simp
    moreover have "ips \<noteq> []" and ips: "set ips = visible_to cfgs (socket_ip src) (network_name data) name"
      using look Some by simp_all
    moreover have "visible_to cfgs (socket_ip src) (network_name data) name \<noteq> {}"
      using \<open>ips \<noteq> []\<close> unfolding ips [symmetric] by simp
    ultimately show ?thesis by blast
  qed
qed

section \<open>Upstream servers from a loaded configuration\<close>

text \<open>The servers configured for a requester: those of its containers, and of their networks.\<close>

definition container_server :: "network_config list \<Rightarrow> ip_addr \<Rightarrow> ip_addr \<Rightarrow> bool" where
  "container_server cfgs requester d \<longleftrightarrow>
     (\<exists>net e ds. entry_in cfgs net False e \<and> requester \<in> set (entry_ips e) \<and>
        ctr_dns_servers e = Some ds \<and> d \<in> set ds)"

definition network_server :: "network_config list \<Rightarrow> ip_addr \<Rightarrow> ip_addr \<Rightarrow> bool" where
  "network_server cfgs requester d \<longleftrightarrow>
     (\<exists>id' net c. owns cfgs id' requester \<and> member_of cfgs id' net \<and>
        (net, False, c) \<in> set cfgs \<and> d \<in> set (network_dnsservers c))"

lemma custom_resolvers_configured:
  assumes "hash_order order" and "store_of order cfgs domain = (be, l4, l6)"
    and "a \<in> set (custom_resolvers be requester)"
  shows "\<exists>d. a = socket_new d DNS_PORT \<and>
    (container_server cfgs requester d \<or> network_server cfgs requester d)"
proof -
  note fields = store_fields [OF assms(2)]
  consider (own) ds d where "ctr_dns_server be requester = Some (Some ds)" "d \<in> set ds"
      "a = socket_new d DNS_PORT"
    | (net) rs d where "get_network_scoped_resolvers be requester = Some rs" "d \<in> set rs"
      "a = socket_new d DNS_PORT"
    using assms(3) unfolding custom_resolvers_def by (auto split: option.splits) metis+
  then show ?thesis
  proof cases
    case own
    then have "map_of (rev (concat (map ctr_dns_updates cfgs))) requester = Some (Some ds)"
      unfolding fields built_fields by simp
    from map_of_SomeD [OF this] have "(requester, Some ds) \<in> set (concat (map ctr_dns_updates cfgs))"
      by simp
    then have "container_server cfgs requester d"
      using own(2) unfolding entry_in_ctr_dns_updates container_server_def by metis
    with own(3) show ?thesis by blast
  next
    case net
    then obtain nets where nets: "ctrs_of order cfgs requester = Some nets"
      and "rs = concat (map (\<lambda>n. or_default (network_dns_server be n)) nets)"
      by (auto simp: get_network_scoped_resolvers_def fields(1) resolvers_of_nets_concat
          split: option.splits)
    with net(2) obtain n where n: "n \<in> set nets" "d \<in> set (or_default (network_dns_server be n))"
      by auto
    obtain id' where member: "owns cfgs id' requester" "member_of cfgs id' n"
      using n(1) nets ctrs_of_mem [OF assms(1), of n cfgs requester] by auto
    obtain vs where "network_dns_server be n = Some vs" "d \<in> set vs"
      using n(2) by (cases "network_dns_server be n") auto
    then have "(n, vs) \<in> set (concat (map network_dns_updates cfgs))"
      unfolding fields built_fields using map_of_SomeD by fastforce
    then obtain i c where c: "(n, i, c) \<in> set cfgs" "(n, vs) \<in> set (network_dns_updates (n, i, c))"
      unfolding in_updates by (auto simp: network_dns_updates_def split: if_splits)
    have "(n, False, c) \<in> set cfgs \<and> vs = network_dnsservers c"
      using c \<open>d \<in> set vs\<close> by (cases i) (auto simp: network_dns_updates_def split: if_splits)
    then have "network_server cfgs requester d"
      using member \<open>d \<in> set vs\<close> unfolding network_server_def by blast
    with net(3) show ?thesis by blast
  qed
qed


section \<open>The configuration a running server answers from\<close>

text \<open>The store was loaded from the files of one admissible world, in one reload.\<close>

definition loaded_from ::
  "'n platform \<Rightarrow> settings \<Rightarrow> world \<Rightarrow> dns_backend \<Rightarrow> bool" where
  "loaded_from P cfg w be \<longleftrightarrow>
     (\<exists>log ips. parse_configs (pl_uni P) (pl_order P) (config_path cfg) (w_is_dir w) (w_read_dir w)
        (filter_search_domain cfg) = (log, Inr (be, ips)))"

lemma spawn_servers_store:
  "spawn_servers P cfg w ips s = Returned s' r \<Longrightarrow> store s' = store s"
  by (auto simp: spawn_servers_def Let_def split: option.splits prod.splits)

lemma stop_server_not_returned: "stop_server P w s \<noteq> Returned s' r"
  by (auto simp: stop_server_def split: option.splits prod.splits)

lemma read_config_store:
  assumes "read_config_and_spawn P cfg w s = Returned s' r"
  shows "store s' = store s \<and> r \<noteq> Inr () \<or> (\<exists>be. loaded_from P cfg w be \<and> store s' = Some be)"
proof -
  obtain log parsed where parsed: "parse_configs (pl_uni P) (pl_order P) (config_path cfg) (w_is_dir w)
      (w_read_dir w) (filter_search_domain cfg) = (log, parsed)" by fastforce
  show ?thesis
  proof (cases parsed)
    case (Inl e)
    with assms have "s' = add_log (map Log_Config log) s" "r \<noteq> Inr ()"
      unfolding read_config_cases parsed by auto
    then show ?thesis by simp
  next
    case (Inr p)
    obtain conf ips where p: "p = (conf, ips)" by (cases p)
    let ?s = "(add_log (map Log_Config log) s)\<lparr>store := Some conf\<rparr>"
    have "read_config_and_spawn P cfg w s = (if ips = ([], []) then stop_server P w ?s
        else spawn_servers P cfg w ips ?s)"
      unfolding read_config_cases parsed Inr p by (simp add: Let_def)
    then have "spawn_servers P cfg w ips ?s = Returned s' r"
      using assms stop_server_not_returned [of P w ?s s' r] by (simp split: if_splits)
    from spawn_servers_store [OF this] have "store s' = Some conf" by simp
    moreover have "loaded_from P cfg w conf" using parsed Inr p by (auto simp: loaded_from_def)
    ultimately show ?thesis by blast
  qed
qed

lemma reachable_loaded:
  assumes "reachable P cfg watching admissible s"
  shows "\<exists>w be. admissible w \<and> loaded_from P cfg w be \<and> store s = Some be"
  using assms
proof (induction rule: reachable.induct)
  case (started w s)
  then have "read_config_and_spawn P cfg w server_init = Returned s (Inr ())"
    by (simp add: serve_start_Started)
  from read_config_store [OF this] started(1) show ?case by blast
next
  case (step s e s')
  show ?case
  proof (cases e)
    case (Sighup w)
    with step.hyps(3) obtain s1 r where run: "read_config_and_spawn P cfg w s = Returned s1 r"
      and s': "s' = log_reload r s1" by (auto simp: serve_step_simps)
    then have "store s' = store s1" by (simp add: log_reload_def split: sum.split)
    with read_config_store [OF run] step.hyps(2) [OF Sighup] step.IH show ?thesis by metis
  qed (use step in \<open>auto simp: serve_step_simps\<close>)
qed

lemma loaded_from_files:
  assumes "platform_ok P" and "loaded_from P cfg w be"
  shows "\<exists>configs l4 l6. w_read_dir w = Inr configs \<and>
    store_of (pl_order P) (config_files (pl_uni P) configs) (filter_search_domain cfg) = (be, l4, l6)"
proof -
  obtain log ips where parse: "parse_configs (pl_uni P) (pl_order P) (config_path cfg) (w_is_dir w)
      (w_read_dir w) (filter_search_domain cfg) = (log, Inr (be, ips))"
    using assms(2) unfolding loaded_from_def by blast
  then obtain configs where "w_read_dir w = Inr configs"
    by (auto simp: parse_configs_def split: sum.splits bool.splits)
  moreover have "hash_order (pl_order P)" using assms(1) by (simp add: platform_ok_def)
  ultimately show ?thesis
    using parse_configs_ok [of "pl_order P", OF _ parse [unfolded \<open>w_read_dir w = Inr configs\<close>]]
    by (metis prod.collapse)
qed

end
