(* ===== verification/Interleaving.thy ===== *)
theory Interleaving
  imports Reload System
begin

text \<open>
  The whole process while it runs: the loop of \<open>serve\<close> with its reloads, the UDP loops of the
  tasks, the TCP connections and the forwarding tasks, interleaved in any order.  The parts are
  the definitions of the other theories; this theory adds the state they share, what a task
  remembers between its own steps, and the order in which the source lets the steps happen.
\<close>

section \<open>The state of the process\<close>

text \<open>
  A message is handled in two steps, because \<open>process_message\<close> loads the store first and locks
  the list of the host's servers later: in between a reload may have replaced both.  A TCP
  connection reads its next message only after the last one is done, forwarding included; the
  forwarding of a UDP message is a task of its own.
\<close>

record 'm connection =
  conn_network :: string
  conn_peer :: socket_addr
  conn_loaded :: "(dns_backend \<times> string) option"
  conn_pending :: "'m forward_event list"

record 'm process =
  proc_server :: server_state
  proc_loop :: loop_state
  proc_phase :: "phase option"
  proc_loaded :: "(task \<times> dns_backend \<times> serial_message) list"
  proc_forwards :: "'m forward_event list list"
  proc_connections :: "'m connection list"

definition proc_init :: "'m process" where
  "proc_init = \<lparr>proc_server = server_init, proc_loop = Starting, proc_phase = None, proc_loaded = [], proc_forwards = [],
     proc_connections = []\<rparr>"

text \<open>The tasks that are running: those of both families whose \<open>run\<close> has not returned.\<close>

definition live_tasks :: "server_state \<Rightarrow> task list" where
  "live_tasks s = filter task_alive (map snd (handles_v4 s) @ map snd (handles_v6 s))"

text \<open>What can be observed: a message is handled with some data, a forwarding task does something.\<close>

datatype 'm label = Got core_dns_data serial_message protocol | Did "'m forward_event"

section \<open>Handling one message\<close>

text \<open>What \<open>process_message\<close> does itself, and what it leaves to a forwarding task.\<close>

definition handled_now :: "('n, 'r, 'x) outcome \<Rightarrow> ('n, 'r, 'x) message forward_event list" where
  "handled_now outcome = (case outcome of Replied (Some serial) \<Rightarrow> [Sending serial] | _ \<Rightarrow> [])"

definition handled_later ::
  "('n, 'r, 'x) hickory \<Rightarrow> (socket_addr \<Rightarrow> bool) \<Rightarrow>
   (socket_addr \<Rightarrow> ('n, 'r, 'x) message \<Rightarrow> ('n, 'r, 'x) message upstream) \<Rightarrow>
   ('n, 'r, 'x) outcome \<Rightarrow> ('n, 'r, 'x) message forward_event list" where
  "handled_later H connects exchange outcome =
     (case outcome of
        Forwarded ns dst m proto \<Rightarrow>
          (case forward_to_servers H connects exchange ns dst m proto of
             Some evs \<Rightarrow> evs
           | None \<Rightarrow> [])
      | _ \<Rightarrow> [])"

text \<open>The data of a task or connection with the store it loaded and the servers of this moment.\<close>

definition message_data :: "settings \<Rightarrow> server_state \<Rightarrow> string \<Rightarrow> dns_backend \<Rightarrow> core_dns_data" where
  "message_data cfg s net be = core_dns_new net be (no_proxy_env cfg) (host_nameservers s)"

section \<open>The steps\<close>

text \<open>
  The first reload is the one of the start-up: only when it succeeds \<open>serve\<close> enters its loop, and
  after each reload the loop comes round again.  A process without an event stream panics there:
  it takes no signal any more, while tasks may still do something until the runtime is gone.  A
  reload that ends the process has no step, since there is no state after it.  A connection is
  closed by its peer, by an error or by three seconds of silence; all that matters here is that
  it happens between two messages.
\<close>

inductive proc_step ::
  "('n, 'r, 'x) hickory \<Rightarrow> 'e platform \<Rightarrow> settings \<Rightarrow> bool \<Rightarrow> (world \<Rightarrow> bool) \<Rightarrow>
   ('n, 'r, 'x) message process \<Rightarrow> ('n, 'r, 'x) message label list \<Rightarrow>
   ('n, 'r, 'x) message process \<Rightarrow> bool"
  for H :: "('n, 'r, 'x) hickory" and P :: "'e platform" and cfg :: settings and watching :: bool
    and admissible :: "world \<Rightarrow> bool"
where
  begin_reload: "proc_phase s = None \<Longrightarrow> admissible w \<Longrightarrow> proc_loop s \<noteq> Loop_Panicked \<Longrightarrow>
    reload_begin P cfg w (proc_server s) = Next ph sv \<Longrightarrow>
    proc_step H P cfg watching admissible s [] (s\<lparr>proc_server := sv, proc_phase := Some ph\<rparr>)"
| refuse_reload: "proc_phase s = None \<Longrightarrow> admissible w \<Longrightarrow> proc_loop s = Looping \<Longrightarrow>
    reload_begin P cfg w (proc_server s) = Done (Returned sv r) \<Longrightarrow>
    proc_step H P cfg watching admissible s [] (s\<lparr>proc_server := log_reload r sv\<rparr>)"
| next_phase: "proc_phase s = Some ph \<Longrightarrow> run_phase P cfg ph (proc_server s) = Next ph' sv \<Longrightarrow>
    proc_step H P cfg watching admissible s [] (s\<lparr>proc_server := sv, proc_phase := Some ph'\<rparr>)"
| end_reload: "proc_phase s = Some ph \<Longrightarrow>
    run_phase P cfg ph (proc_server s) = Done (Returned sv r) \<Longrightarrow> proc_loop s = Looping \<or> r = Inr () \<Longrightarrow>
    proc_step H P cfg watching admissible s []
      (s\<lparr>proc_server := log_reload r sv, proc_loop := loop_round watching, proc_phase := None\<rparr>)"
| resolv_changed: "proc_phase s = None \<Longrightarrow> proc_loop s = Looping \<Longrightarrow>
    serve_step P cfg (proc_server s) (Resolv_Changed f) (Running sv) \<Longrightarrow>
    proc_step H P cfg watching admissible s [] (s\<lparr>proc_server := sv\<rparr>)"
| task_ended4: "serve_step P cfg (proc_server s) (Task_Ended4 k4) (Running sv) \<Longrightarrow>
    proc_step H P cfg watching admissible s [] (s\<lparr>proc_server := sv\<rparr>)"
| task_ended6: "serve_step P cfg (proc_server s) (Task_Ended6 k6) (Running sv) \<Longrightarrow>
    proc_step H P cfg watching admissible s [] (s\<lparr>proc_server := sv\<rparr>)"
| udp_load: "t \<in> set (live_tasks (proc_server s)) \<Longrightarrow> t \<notin> fst ` set (proc_loaded s) \<Longrightarrow>
    store (proc_server s) = Some be \<Longrightarrow>
    proc_step H P cfg watching admissible s [] (s\<lparr>proc_loaded := proc_loaded s @ [(t, be, msg)]\<rparr>)"
| udp_handle: "i < length (proc_loaded s) \<Longrightarrow> proc_loaded s ! i = (t, be, msg) \<Longrightarrow>
    data = message_data cfg (proc_server s) (task_network t) be \<Longrightarrow>
    outcome = process_message H (pl_uni P) data msg Udp \<Longrightarrow>
    proc_step H P cfg watching admissible s (Got data msg Udp # map Did (handled_now outcome))
      (s\<lparr>proc_loaded := drop_nth i (proc_loaded s),
         proc_forwards := proc_forwards s @ [handled_later H connects exchange outcome]\<rparr>)"
| forward: "i < length (proc_forwards s) \<Longrightarrow> proc_forwards s ! i = ev # evs \<Longrightarrow>
    proc_step H P cfg watching admissible s [Did ev] (s\<lparr>proc_forwards := (proc_forwards s)[i := evs]\<rparr>)"
| tcp_accept: "t \<in> set (live_tasks (proc_server s)) \<Longrightarrow>
    proc_step H P cfg watching admissible s []
      (s\<lparr>proc_connections := proc_connections s @
         [\<lparr>conn_network = task_network t, conn_peer = peer, conn_loaded = None, conn_pending = []\<rparr>]\<rparr>)"
| tcp_load: "i < length (proc_connections s) \<Longrightarrow> proc_connections s ! i = c \<Longrightarrow>
    conn_loaded c = None \<Longrightarrow> conn_pending c = [] \<Longrightarrow> store (proc_server s) = Some be \<Longrightarrow>
    proc_step H P cfg watching admissible s []
      (s\<lparr>proc_connections := (proc_connections s)[i := c\<lparr>conn_loaded := Some (be, bytes)\<rparr>]\<rparr>)"
| tcp_handle: "i < length (proc_connections s) \<Longrightarrow> proc_connections s ! i = c \<Longrightarrow>
    conn_loaded c = Some (be, bytes) \<Longrightarrow>
    data = message_data cfg (proc_server s) (conn_network c) be \<Longrightarrow>
    outcome = process_message H (pl_uni P) data (bytes, conn_peer c) Tcp \<Longrightarrow>
    proc_step H P cfg watching admissible s
      (Got data (bytes, conn_peer c) Tcp # map Did (handled_now outcome))
      (s\<lparr>proc_connections := (proc_connections s)[i := c\<lparr>conn_loaded := None,
         conn_pending := handled_later H connects exchange outcome\<rparr>]\<rparr>)"
| tcp_forward: "i < length (proc_connections s) \<Longrightarrow> proc_connections s ! i = c \<Longrightarrow>
    conn_pending c = ev # evs \<Longrightarrow>
    proc_step H P cfg watching admissible s [Did ev]
      (s\<lparr>proc_connections := (proc_connections s)[i := c\<lparr>conn_pending := evs\<rparr>]\<rparr>)"
| tcp_close: "i < length (proc_connections s) \<Longrightarrow> conn_loaded (proc_connections s ! i) = None \<Longrightarrow>
    conn_pending (proc_connections s ! i) = [] \<Longrightarrow>
    proc_step H P cfg watching admissible s []
      (s\<lparr>proc_connections := drop_nth i (proc_connections s)\<rparr>)"

abbreviation proc_run ::
  "('n, 'r, 'x) hickory \<Rightarrow> 'e platform \<Rightarrow> settings \<Rightarrow> bool \<Rightarrow> (world \<Rightarrow> bool) \<Rightarrow>
   ('n, 'r, 'x) message label list \<Rightarrow> ('n, 'r, 'x) message process \<Rightarrow> bool" where
  "proc_run H P cfg watching admissible \<equiv>
     trace_of ((=) proc_init) (proc_step H P cfg watching admissible)"


section \<open>The server inside the process\<close>

lemma reload_begin_cases:
  "(\<exists>be ips log. loaded_from P cfg w be \<and> reload_begin P cfg w s =
      Next (Store_Swapped w ips) ((add_log log s)\<lparr>store := Some be\<rparr>)) \<or>
   (\<exists>log e. reload_begin P cfg w s = Done (Returned (add_log log s) (Inl e)))"
proof -
  obtain log parsed where parsed: "parse_configs (pl_uni P) (pl_order P) (config_path cfg) (w_is_dir w)
      (w_read_dir w) (filter_search_domain cfg) = (log, parsed)" by fastforce
  then show ?thesis
    by (cases parsed) (auto simp: reload_begin_def loaded_from_def wrap_def Let_def)
qed

lemma reload_begin_Next:
  assumes "reload_begin P cfg w s = Next ph s'"
  obtains be ips log where "loaded_from P cfg w be" "ph = Store_Swapped w ips"
    "s' = (add_log log s)\<lparr>store := Some be\<rparr>"
  using assms reload_begin_cases [of P cfg w s] by auto

lemma reload_begin_Done:
  assumes "reload_begin P cfg w s = Done (Returned s' r)"
  obtains log e where "s' = add_log log s" "r = Inl e"
  using assms reload_begin_cases [of P cfg w s] by auto

lemma log_reload_fields [simp]:
  "store (log_reload r s) = store s" "handles_v4 (log_reload r s) = handles_v4 s"
  "handles_v6 (log_reload r s) = handles_v6 s" "host_nameservers (log_reload r s) = host_nameservers s"
  by (simp_all add: log_reload_def split: sum.split)

lemma run_phase_world: "run_phase P cfg ph s = Next ph' s' \<Longrightarrow> phase_world ph' = phase_world ph"
  by (cases ph) (auto simp: Let_def split: if_splits prod.splits option.splits)

lemma run_phase_store:
  "run_phase P cfg ph s = Next ph' s' \<Longrightarrow> store s' = store s"
  "run_phase P cfg ph s = Done (Returned s' r) \<Longrightarrow> store s' = store s"
  using set_resolvers_fields(1) stop_server_not_returned
  by (cases ph; fastforce simp: Let_def split: if_splits prod.splits option.splits)+

lemma serve_step_stores:
  assumes "serve_step P cfg s e (Running s')" and "\<And>w. e \<noteq> Sighup w"
  shows "store s' = store s"
  using assms by (cases e) (auto simp: serve_step_simps)

lemma serve_step_inv:
  assumes "serve_step P cfg s e (Running s')" and "\<And>w. e \<noteq> Sighup w"
    and "server_inv cfg s"
  shows "server_inv cfg s'"
proof (cases e)
  case (Resolv_Changed f)
  with assms(1,3) show ?thesis
    using server_inv_frame [of s' s cfg] get_upstream_ok
    by (auto simp: serve_step_simps server_inv_def tasks_ok_def sockets_ok_def)
next
  case (Task_Ended4 k)
  with assms(1) end_task_inv(1) [OF assms(3), of k] show ?thesis by (auto simp: serve_step_simps)
next
  case (Task_Ended6 k)
  with assms(1) end_task_inv(2) [OF assms(3), of k] show ?thesis by (auto simp: serve_step_simps)
qed (use assms in simp)

text \<open>The invariant of the server, at every moment of a reload too.\<close>

definition proc_server_ok :: "settings \<Rightarrow> (world \<Rightarrow> bool) \<Rightarrow> 'm process \<Rightarrow> bool" where
  "proc_server_ok cfg admissible s \<longleftrightarrow> server_inv cfg (proc_server s) \<and>
     (\<forall>ph. proc_phase s = Some ph \<longrightarrow> admissible (phase_world ph) \<and> store (proc_server s) \<noteq> None) \<and>
     (proc_loop s \<noteq> Starting \<longrightarrow> store (proc_server s) \<noteq> None)"

lemma proc_step_server:
  assumes "platform_ok P" and "\<And>w. admissible w \<Longrightarrow> bind_excludes (w_bind w)"
    and "proc_server_ok cfg admissible s" and "proc_step H P cfg watching admissible s ls s'"
  shows "proc_server_ok cfg admissible s'"
  using assms(4)
proof (cases rule: proc_step.cases)
  case (begin_reload w ph sv)
  then obtain be ips log where "ph = Store_Swapped w ips"
    "sv = (add_log log (proc_server s))\<lparr>store := Some be\<rparr>"
    by (elim reload_begin_Next)
  with begin_reload assms(3) show ?thesis
    using server_inv_frame [of sv "proc_server s" cfg] by (simp add: proc_server_ok_def)
next
  case (refuse_reload w sv r)
  then obtain log e where "sv = add_log log (proc_server s)" by (elim reload_begin_Done)
  with refuse_reload assms(3) show ?thesis
    using server_inv_frame [of "log_reload r sv" "proc_server s" cfg] by (simp add: proc_server_ok_def)
next
  case (next_phase ph ph' sv)
  with assms(3) have "bind_excludes (w_bind (phase_world ph))" "server_inv cfg (proc_server s)"
    "store (proc_server s) \<noteq> None" "admissible (phase_world ph)"
    using assms(2) by (simp_all add: proc_server_ok_def)
  with run_phase_step [OF assms(1) this(1,2)] next_phase show ?thesis
    by (simp add: proc_server_ok_def)
next
  case (end_reload ph sv r)
  with assms(3) have "bind_excludes (w_bind (phase_world ph))" "server_inv cfg (proc_server s)"
    "store (proc_server s) \<noteq> None"
    using assms(2) by (simp_all add: proc_server_ok_def)
  with run_phase_step [OF assms(1) this(1,2)] end_reload show ?thesis
    using server_inv_frame [of "log_reload r sv" sv cfg] by (simp add: proc_server_ok_def)
next
  case (resolv_changed f sv)
  with assms(3) serve_step_inv [OF resolv_changed(5)] serve_step_stores [OF resolv_changed(5)]
  show ?thesis by (simp add: proc_server_ok_def)
next
  case (task_ended4 k4 sv)
  with assms(3) serve_step_inv [OF task_ended4(3)] serve_step_stores [OF task_ended4(3)]
  show ?thesis by (simp add: proc_server_ok_def)
next
  case (task_ended6 k6 sv)
  with assms(3) serve_step_inv [OF task_ended6(3)] serve_step_stores [OF task_ended6(3)]
  show ?thesis by (simp add: proc_server_ok_def)
qed (use assms(3) in \<open>simp_all add: proc_server_ok_def\<close>)

lemma proc_init_server: "proc_server_ok cfg admissible proc_init"
  by (simp add: proc_init_def proc_server_ok_def server_init_inv)

interpretation server_trace: trace_invariant "(=) proc_init"
  "proc_step H P cfg watching admissible"
  "\<lambda>tr s. platform_ok P \<longrightarrow> (\<forall>w. admissible w \<longrightarrow> bind_excludes (w_bind w)) \<longrightarrow>
     proc_server_ok cfg admissible s"
  for H :: "('n, 'r, 'x) hickory" and P :: "'e platform" and cfg watching admissible
  by unfold_locales (use proc_init_server proc_step_server in blast)+

section \<open>Where the data of a message comes from\<close>

text \<open>A store that one admissible reload loaded, and the data of a message built on one.\<close>

definition admitted :: "'e platform \<Rightarrow> settings \<Rightarrow> (world \<Rightarrow> bool) \<Rightarrow> dns_backend \<Rightarrow> bool" where
  "admitted P cfg admissible be \<longleftrightarrow> (\<exists>w. admissible w \<and> loaded_from P cfg w be)"

definition label_admitted ::
  "'e platform \<Rightarrow> settings \<Rightarrow> (world \<Rightarrow> bool) \<Rightarrow> 'm label \<Rightarrow> bool" where
  "label_admitted P cfg admissible l \<longleftrightarrow>
     (case l of
        Got data msg proto \<Rightarrow>
          admitted P cfg admissible (backend data) \<and> no_proxy data = no_proxy_env cfg
      | Did ev \<Rightarrow> True)"

definition conn_admitted ::
  "'e platform \<Rightarrow> settings \<Rightarrow> (world \<Rightarrow> bool) \<Rightarrow> 'm connection \<Rightarrow> bool" where
  "conn_admitted P cfg admissible c \<longleftrightarrow>
     (case conn_loaded c of Some (be, bytes) \<Rightarrow> admitted P cfg admissible be | None \<Rightarrow> True)"

definition stores_ok ::
  "'e platform \<Rightarrow> settings \<Rightarrow> (world \<Rightarrow> bool) \<Rightarrow> 'm label list \<Rightarrow> 'm process \<Rightarrow> bool" where
  "stores_ok P cfg admissible tr s \<longleftrightarrow>
     (\<forall>be. store (proc_server s) = Some be \<longrightarrow> admitted P cfg admissible be) \<and>
     list_all (\<lambda>(t, be, msg). admitted P cfg admissible be) (proc_loaded s) \<and>
     list_all (conn_admitted P cfg admissible) (proc_connections s) \<and>
     list_all (label_admitted P cfg admissible) tr"

lemma labels_did_admitted [simp]: "list_all (label_admitted P cfg admissible) (map Did evs)"
  by (simp add: list_all_iff label_admitted_def)

lemma message_data_fields [simp]:
  "backend (message_data cfg s net be) = be" "no_proxy (message_data cfg s net be) = no_proxy_env cfg"
  "nameservers (message_data cfg s net be) = host_nameservers s"
  "network_name (message_data cfg s net be) = net"
  by (simp_all add: message_data_def core_dns_new_def)

lemma proc_step_stores:
  assumes "stores_ok P cfg admissible tr s" and "proc_step H P cfg watching admissible s ls s'"
  shows "stores_ok P cfg admissible (tr @ ls) s'"
  using assms(2)
proof (cases rule: proc_step.cases)
  case (begin_reload w ph sv)
  then obtain be where "loaded_from P cfg w be" "store sv = Some be"
    by (elim reload_begin_Next) simp
  with begin_reload assms(1) show ?thesis by (auto simp: stores_ok_def admitted_def)
next
  case (refuse_reload w sv r)
  then obtain log where "sv = add_log log (proc_server s)" by (elim reload_begin_Done)
  with refuse_reload assms(1) show ?thesis by (simp add: stores_ok_def)
next
  case (next_phase ph ph' sv)
  with assms(1) run_phase_store(1) [OF next_phase(4)] show ?thesis by (simp add: stores_ok_def)
next
  case (end_reload ph sv r)
  with assms(1) run_phase_store(2) [OF end_reload(4)] show ?thesis by (simp add: stores_ok_def)
next
  case (resolv_changed f sv)
  with assms(1) serve_step_stores [OF resolv_changed(5)] show ?thesis by (simp add: stores_ok_def)
next
  case (task_ended4 k4 sv)
  with assms(1) serve_step_stores [OF task_ended4(3)] show ?thesis by (simp add: stores_ok_def)
next
  case (task_ended6 k6 sv)
  with assms(1) serve_step_stores [OF task_ended6(3)] show ?thesis by (simp add: stores_ok_def)
next
  case (udp_handle i t be msg data outcome connects exchange)
  have "admitted P cfg admissible be"
    using assms(1) list_all_nth [OF _ udp_handle(3)] udp_handle(4) by (fastforce simp: stores_ok_def)
  with assms(1) udp_handle(1,2,5) show ?thesis
    by (simp add: stores_ok_def list_all_drop_nth label_admitted_def)
next
  case (tcp_handle i c be bytes data outcome connects exchange)
  have "admitted P cfg admissible be"
    using assms(1) list_all_nth [OF _ tcp_handle(3), of "conn_admitted P cfg admissible"] tcp_handle(4,5)
    by (simp add: stores_ok_def conn_admitted_def)
  with assms(1) tcp_handle(1,2,6) show ?thesis
    by (simp add: stores_ok_def list_all_update conn_admitted_def label_admitted_def)
next
  case (tcp_load i c be bytes)
  with assms(1) show ?thesis by (simp add: stores_ok_def list_all_update conn_admitted_def)
next
  case (tcp_forward i c ev evs)
  have "conn_admitted P cfg admissible c"
    using assms(1) list_all_nth [OF _ tcp_forward(3)] tcp_forward(4) by (auto simp: stores_ok_def)
  with assms(1) tcp_forward(1,2) show ?thesis
    by (simp add: stores_ok_def list_all_update conn_admitted_def label_admitted_def)
next
  case (tcp_close i)
  with assms(1) show ?thesis by (simp add: stores_ok_def list_all_drop_nth)
qed (use assms(1) in \<open>simp_all add: stores_ok_def conn_admitted_def label_admitted_def\<close>)

interpretation store_trace: trace_invariant "(=) proc_init"
  "proc_step H P cfg watching admissible" "stores_ok P cfg admissible"
  for H :: "('n, 'r, 'x) hickory" and P :: "'e platform" and cfg watching admissible
  by unfold_locales
    (simp add: stores_ok_def proc_init_def server_init_def, blast intro: proc_step_stores)

end
