(* ===== verification/Process_Runs.thy ===== *)
theory Process_Runs
  imports Interleaving
begin

text \<open>
  Runs of the whole process, for the witnesses: every state of the server that uninterrupted reloads
  reach is reached here too, and there is a run in which a query is forwarded and answered.
\<close>

section \<open>The uninterrupted server is a run\<close>

lemma phase_run:
  assumes "((continue P cfg) ^^ n) (run_phase P cfg ph (proc_server p)) = Done (Returned sv r)"
    and "proc_phase p = Some ph" and "proc_loop p = Looping \<or> r = Inr ()"
  shows "trace_of ((=) p) (proc_step H P cfg watching admissible) []
    (p\<lparr>proc_server := log_reload r sv, proc_loop := loop_round watching, proc_phase := None\<rparr>)"
  using assms
proof (induction n arbitrary: p ph)
  case 0
  then have "run_phase P cfg ph (proc_server p) = Done (Returned sv r)" by simp
  with 0(2,3) show ?case by (intro trace_of_one proc_step.end_reload)
next
  case (Suc n)
  show ?case
  proof (cases "run_phase P cfg ph (proc_server p)")
    case (Done r')
    then have "((continue P cfg) ^^ k) (run_phase P cfg ph (proc_server p)) = Done r'" for k
      by (induction k) simp_all
    with Suc.prems(1) Done have "run_phase P cfg ph (proc_server p) = Done (Returned sv r)" by metis
    with Suc.prems(2,3) show ?thesis by (intro trace_of_one proc_step.end_reload)
  next
    case (Next ph' s')
    let ?p = "p\<lparr>proc_server := s', proc_phase := Some ph'\<rparr>"
    have "((continue P cfg) ^^ n) (run_phase P cfg ph' (proc_server ?p)) = Done (Returned sv r)"
      using Suc.prems(1) Next by (simp add: funpow_swap1)
    from Suc.IH [OF this] Suc.prems(3) have
      "trace_of ((=) ?p) (proc_step H P cfg watching admissible) []
        (?p\<lparr>proc_server := log_reload r sv, proc_loop := loop_round watching, proc_phase := None\<rparr>)" by simp
    from trace_of_Cons [where moves = "proc_step H P cfg watching admissible", OF proc_step.next_phase [OF Suc.prems(2) Next] this] show ?thesis by simp
  qed
qed

lemma reload_run:
  assumes "read_config_and_spawn P cfg w (proc_server p) = Returned sv r"
    and "proc_phase p = None" and "admissible w" and "watching"
    and "proc_loop p = Looping \<or> proc_loop p = Starting \<and> r = Inr ()"
  shows "trace_of ((=) p) (proc_step H P cfg watching admissible) []
    (p\<lparr>proc_server := log_reload r sv, proc_loop := Looping\<rparr>)"
proof -
  have run: "((continue P cfg) ^^ 3) (reload_begin P cfg w (proc_server p)) = Done (Returned sv r)"
    using phases_refine_reload [of P cfg w "proc_server p"] assms(1) by (simp add: numeral_3_eq_3)
  show ?thesis
  proof (cases "reload_begin P cfg w (proc_server p)")
    case (Done r')
    with run have refused: "reload_begin P cfg w (proc_server p) = Done (Returned sv r)"
      by (simp add: numeral_3_eq_3)
    then have "r \<noteq> Inr ()" by (elim reload_begin_Done) simp
    with assms(5) have loop: "proc_loop p = Looping" by simp
    have "proc_step H P cfg watching admissible p [] (p\<lparr>proc_server := log_reload r sv\<rparr>)"
      using assms(2,3) loop refused by (rule proc_step.refuse_reload)
    from trace_of_one [where moves = "proc_step H P cfg watching admissible", OF this] show ?thesis
      using loop by (cases p) simp
  next
    case (Next ph s')
    let ?p = "p\<lparr>proc_server := s', proc_phase := Some ph\<rparr>"
    have "((continue P cfg) ^^ 2) (run_phase P cfg ph (proc_server ?p)) = Done (Returned sv r)"
      using run Next by (simp add: numeral_3_eq_3 numeral_2_eq_2)
    moreover have "proc_phase ?p = Some ph" "proc_loop ?p = Looping \<or> r = Inr ()" using assms(5) by auto
    ultimately have
      "trace_of ((=) ?p) (proc_step H P cfg watching admissible) []
        (?p\<lparr>proc_server := log_reload r sv, proc_loop := loop_round watching, proc_phase := None\<rparr>)"
      by (rule phase_run)
    from trace_of_Cons [where moves = "proc_step H P cfg watching admissible", OF proc_step.begin_reload [where admissible = admissible and H = H and watching = watching, OF assms(2,3) _ Next] this] show ?thesis
      using assms(2,4,5) by (cases p) (auto simp: loop_round_def)
  qed
qed


lemma server_run:
  assumes "reachable P cfg watching admissible s"
  shows "\<exists>p. proc_run H P cfg watching admissible [] p \<and> proc_server p = s \<and> proc_loop p = Looping \<and>
    proc_phase p = None \<and> proc_loaded p = [] \<and> proc_forwards p = [] \<and> proc_connections p = []"
  using assms
proof (induction rule: reachable.induct)
  case (started w s)
  let ?p = "proc_init\<lparr>proc_server := s, proc_loop := Looping\<rparr>"
  have "read_config_and_spawn P cfg w (proc_server proc_init) = Returned s (Inr ())"
    using started(2) by (simp add: serve_start_Started proc_init_def)
  from reload_run [where p = proc_init and admissible = admissible and watching = watching and H = H,
      OF this _ started(1)] started(2)
  have "proc_run H P cfg watching admissible [] ?p" by (simp add: proc_init_def log_reload_def)
  then show ?case by (intro exI [of _ ?p]) (simp add: proc_init_def)
next
  case (step s e s')
  then obtain p where p: "proc_run H P cfg watching admissible [] p" "proc_server p = s"
    "proc_loop p = Looping" "proc_phase p = None" "proc_loaded p = []" "proc_forwards p = []"
    "proc_connections p = []" by blast
  have one: "proc_run H P cfg watching admissible [] (p\<lparr>proc_server := s'\<rparr>)"
    if "proc_step H P cfg watching admissible p [] (p\<lparr>proc_server := s'\<rparr>)"
    using trace_of.trace_step [OF p(1) that] by simp
  have "proc_run H P cfg watching admissible [] (p\<lparr>proc_server := s'\<rparr>)"
  proof (cases e)
    case (Sighup w)
    with step.hyps(3) obtain s1 r where run: "read_config_and_spawn P cfg w (proc_server p) = Returned s1 r"
      and s': "s' = log_reload r s1" by (auto simp: serve_step_simps p(2))
    have "admissible w" by (rule step.hyps(2) [OF Sighup])
    from reload_run [where admissible = admissible and watching = watching and H = H, OF run p(4) this] p(3) reachable_watching [OF step.hyps(1)]
    have "trace_of ((=) p) (proc_step H P cfg watching admissible) [] (p\<lparr>proc_server := s'\<rparr>)"
      by (cases p) (simp add: s')
    from trace_of_trans [OF p(1) this] show ?thesis by simp
  next
    case (Resolv_Changed f)
    with step.hyps(3) p show ?thesis by (intro one proc_step.resolv_changed) simp_all
  next
    case (Task_Ended4 k)
    with step.hyps(3) p show ?thesis by (intro one proc_step.task_ended4) simp_all
  next
    case (Task_Ended6 k)
    with step.hyps(3) p show ?thesis by (intro one proc_step.task_ended6) simp_all
  qed
  with p show ?case by (intro exI [of _ "p\<lparr>proc_server := s'\<rparr>"]) simp
qed

section \<open>A sample run\<close>

text \<open>
  The server is started, a task receives a query it may forward, asks the host's server and sends
  the answer back.
\<close>

definition sample_bytes :: string where
  "sample_bytes = query_bytes CHR 0x01 ''example.org.''"

definition sample_message :: "(string, wire_record, unit) message" where
  "sample_message = the (from_vec wire sample_bytes)"

abbreviation host_server :: socket_addr where
  "host_server \<equiv> Sock4 (Ipv4 1 1 1 1) 53"

lemma sample_serving:
  "\<exists>s t be. serve_start sample_platform sample_settings sample_world None None None = Started s \<and>
     t \<in> set (live_tasks s) \<and> store s = Some be \<and> nameservers_ok (host_nameservers s) \<and>
     process_message wire id (message_data sample_settings s (task_network t) be)
       (sample_bytes, sample_client) Udp = Forwarded [host_server] sample_client sample_message Udp"
proof -
  have "(case serve_start sample_platform sample_settings sample_world None None None of
      Started s \<Rightarrow>
        (case (live_tasks s, store s) of
           (t # ts, Some be) \<Rightarrow> nameservers_ok (host_nameservers s) \<and>
             process_message wire id (message_data sample_settings s (task_network t) be)
               (sample_bytes, sample_client) Udp = Forwarded [host_server] sample_client sample_message Udp
         | _ \<Rightarrow> False)
    | _ \<Rightarrow> False)"
    by code_simp
  then show ?thesis by (auto split: startup.splits list.splits option.splits)
qed

lemma sample_forwarding:
  "\<exists>answer. handled_later wire (\<lambda>_. True) (\<lambda>_. Response)
     (Forwarded [host_server] sample_client sample_message Udp) =
     [Asking host_server sample_message (5 * 10 ^ 9), Sending (answer, sample_client)]"
proof -
  have "forward_dns_req (\<lambda>_. Response) host_server sample_message = Some sample_message" by code_simp
  moreover have "(case reply wire sample_client sample_message of
      Some (answer, dst) \<Rightarrow> dst = sample_client | None \<Rightarrow> False)" by code_simp
  then obtain answer where "reply wire sample_client sample_message = Some (answer, sample_client)"
    by (auto split: option.splits)
  ultimately show ?thesis
    by (simp add: handled_later_def forward_to_servers_def server_timeout_def Let_def)
qed

lemma sample_run:
  "\<exists>data answer s. proc_run wire sample_platform sample_settings True (\<lambda>w. w = sample_world)
     [Got data (sample_bytes, sample_client) Udp,
      Did (Asking host_server sample_message (5 * 10 ^ 9)), Did (Sending (answer, sample_client))] s \<and>
     proc_server s \<noteq> server_init"
proof -
  let ?step = "proc_step wire sample_platform sample_settings True (\<lambda>w. w = sample_world)"
  obtain sv t be where sv: "serve_start sample_platform sample_settings sample_world None None None = Started sv"
    and t: "t \<in> set (live_tasks sv)" and be: "store sv = Some be"
    and fw: "process_message wire id (message_data sample_settings sv (task_network t) be)
       (sample_bytes, sample_client) Udp = Forwarded [host_server] sample_client sample_message Udp"
    using sample_serving by blast
  obtain answer where later: "handled_later wire (\<lambda>_. True) (\<lambda>_. Response)
      (Forwarded [host_server] sample_client sample_message Udp) =
      [Asking host_server sample_message (5 * 10 ^ 9), Sending (answer, sample_client)]"
    using sample_forwarding by blast
  have "reachable sample_platform sample_settings True (\<lambda>w. w = sample_world) sv"
    by (rule reachable.started [OF refl]) (simp add: sv)
  from server_run [where H = wire, OF this] obtain p where p: "trace_of ((=) proc_init) ?step [] p" "proc_server p = sv"
    "proc_loaded p = []" "proc_forwards p = []" by blast
  let ?data = "message_data sample_settings sv (task_network t) be"
  let ?p1 = "p\<lparr>proc_loaded := [(t, be, (sample_bytes, sample_client))]\<rparr>"
  have 1: "?step p [] ?p1"
    using proc_step.udp_load [of t p be wire sample_platform sample_settings True "\<lambda>w. w = sample_world"
        "(sample_bytes, sample_client)"] t be p by simp
  let ?p2 = "p\<lparr>proc_loaded := [], proc_forwards := [[Asking host_server sample_message (5 * 10 ^ 9), Sending (answer, sample_client)]]\<rparr>"
  have 2: "?step ?p1 [Got ?data (sample_bytes, sample_client) Udp] ?p2"
  proof -
    have "proc_loaded ?p1 ! 0 = (t, be, (sample_bytes, sample_client))" by simp
    from proc_step.udp_handle [where i = 0 and s = ?p1 and connects = "\<lambda>_. True" and exchange = "\<lambda>_. Response"
        and cfg = sample_settings and H = wire and P = sample_platform and watching = True
        and admissible = "\<lambda>w. w = sample_world", OF _ this refl refl]
    show ?thesis using fw later p by (simp add: sample_platform_def drop_nth_def handled_now_def)
  qed
  let ?p3 = "p\<lparr>proc_loaded := [], proc_forwards := [[Sending (answer, sample_client)]]\<rparr>"
  have 3: "?step ?p2 [Did (Asking host_server sample_message (5 * 10 ^ 9))] ?p3"
    using proc_step.forward [where i = 0 and s = ?p2 and H = wire and P = sample_platform
        and cfg = sample_settings and watching = True and admissible = "\<lambda>w. w = sample_world"] by simp
  let ?p4 = "p\<lparr>proc_loaded := [], proc_forwards := [[]]\<rparr>"
  have 4: "?step ?p3 [Did (Sending (answer, sample_client))] ?p4"
    using proc_step.forward [where i = 0 and s = ?p3 and H = wire and P = sample_platform
        and cfg = sample_settings and watching = True and admissible = "\<lambda>w. w = sample_world"] by simp
  have "sv \<noteq> server_init" using be by (auto simp: server_init_def)
  note cons = trace_of_Cons [where moves = ?step]
  from trace_of_trans [OF p(1) cons [OF 1 cons [OF 2 cons [OF 3 trace_of_one [where moves = ?step, OF 4]]]]]
  have "trace_of ((=) proc_init) ?step
    [Got ?data (sample_bytes, sample_client) Udp, Did (Asking host_server sample_message (5 * 10 ^ 9)),
     Did (Sending (answer, sample_client))] ?p4" by simp
  with \<open>sv \<noteq> server_init\<close> p(2) show ?thesis
    by (intro exI [of _ ?data] exI [of _ answer] exI [of _ ?p4]) simp
qed

end
