(* ===== verification/Process_Props.thy ===== *)
theory Process_Props
  imports Process_Runs
begin

text \<open>
  What holds in every run of the whole process, however its parts interleave: every action of a
  forwarding task and every reply is caused by a message received before, replies go back to who
  asked and never outnumber the requests, nothing leaves the host that may not, and work that is
  under way can always be finished.
\<close>

section \<open>Causes\<close>

text \<open>An action is caused by a message that was handled with some data.\<close>

definition caused ::
  "('n, 'r, 'x) hickory \<Rightarrow> 'e platform \<Rightarrow> ('n, 'r, 'x) message label list \<Rightarrow>
   ('n, 'r, 'x) message forward_event \<Rightarrow> bool" where
  "caused H P tr ev \<longleftrightarrow> (\<exists>data msg proto. Got data msg proto \<in> set tr \<and>
     (ev \<in> set (handled_now (process_message H (pl_uni P) data msg proto)) \<or>
      (\<exists>connects exchange.
         ev \<in> set (handled_later H connects exchange (process_message H (pl_uni P) data msg proto)))))"

definition label_caused ::
  "('n, 'r, 'x) hickory \<Rightarrow> 'e platform \<Rightarrow> ('n, 'r, 'x) message label list \<Rightarrow>
   ('n, 'r, 'x) message label \<Rightarrow> bool" where
  "label_caused H P tr l \<longleftrightarrow> (case l of Did ev \<Rightarrow> caused H P tr ev | Got data msg proto \<Rightarrow> True)"

definition causes_ok ::
  "('n, 'r, 'x) hickory \<Rightarrow> 'e platform \<Rightarrow> ('n, 'r, 'x) message label list \<Rightarrow>
   ('n, 'r, 'x) message process \<Rightarrow> bool" where
  "causes_ok H P tr s \<longleftrightarrow> causal (label_caused H P) tr \<and>
     list_all (list_all (caused H P tr)) (proc_forwards s) \<and>
     list_all (\<lambda>c. list_all (caused H P tr) (conn_pending c)) (proc_connections s)"

lemma caused_mono: "caused H P tr ev \<Longrightarrow> caused H P (tr @ ls) ev"
  unfolding caused_def set_append by blast

lemma causedI:
  assumes "Got data msg proto \<in> set tr" and "outcome = process_message H (pl_uni P) data msg proto"
    and "ev \<in> set (handled_now outcome) \<or> ev \<in> set (handled_later H connects exchange outcome)"
  shows "caused H P tr ev"
  using assms unfolding caused_def by blast

lemma all_caused_mono:
  "list_all (list_all (caused H P tr)) xs \<Longrightarrow> list_all (list_all (caused H P (tr @ ls))) xs"
  "list_all (\<lambda>c. list_all (caused H P tr) (conn_pending c)) cs \<Longrightarrow>
     list_all (\<lambda>c. list_all (caused H P (tr @ ls)) (conn_pending c)) cs"
  by (auto simp: list_all_iff intro: caused_mono)

lemma causal_got:
  assumes "causal (label_caused H P) tr"
    and "outcome = process_message H (pl_uni P) data msg proto"
  shows "causal (label_caused H P) (tr @ Got data msg proto # map Did (handled_now outcome))"
    and "list_all (caused H P (tr @ Got data msg proto # map Did (handled_now outcome)))
      (handled_later H connects exchange outcome)"
proof -
  let ?ls = "Got data msg proto # map Did (handled_now outcome)"
  have "label_caused H P (tr @ take i ?ls) (?ls ! i)" if "i < length ?ls" for i
  proof (cases i)
    case (Suc j)
    then have j: "j < length (handled_now outcome)" using that by simp
    then have "handled_now outcome ! j \<in> set (handled_now outcome)" by simp
    then have "caused H P (tr @ take i ?ls) (handled_now outcome ! j)"
      by (intro causedI [OF _ assms(2)]) (simp_all add: Suc)
    with Suc j show ?thesis by (simp add: label_caused_def)
  qed (simp add: label_caused_def)
  with assms(1) show "causal (label_caused H P) (tr @ ?ls)" by (intro causal_append)
  show "list_all (caused H P (tr @ ?ls)) (handled_later H connects exchange outcome)"
    unfolding list_all_iff by (auto intro: causedI [OF _ assms(2)])
qed

lemma causal_did:
  "causal (label_caused H P) tr \<Longrightarrow> caused H P tr ev \<Longrightarrow> causal (label_caused H P) (tr @ [Did ev])"
  by (intro causal_append) (simp_all add: label_caused_def)

lemma proc_step_causes:
  assumes "causes_ok H P tr s" and "proc_step H P cfg watching admissible s ls s'"
  shows "causes_ok H P (tr @ ls) s'"
  using assms(2)
proof (cases rule: proc_step.cases)
  case (udp_handle i t be msg data outcome connects exchange)
  have "causal (label_caused H P) tr" using assms(1) by (simp add: causes_ok_def)
  note causal_got [OF this udp_handle(6)]
  with assms(1) udp_handle(1,2) show ?thesis
    by (simp add: causes_ok_def all_caused_mono)
next
  case (forward i ev evs)
  then have "list_all (caused H P tr) (ev # evs)"
    using assms(1) list_all_nth [OF _ forward(3)] by (metis causes_ok_def)
  with assms(1) forward(1,2) show ?thesis
    by (auto simp: causes_ok_def all_caused_mono causal_did list_all_update
        intro!: list_all_update all_caused_mono list.pred_mono_strong [OF _ caused_mono])
next
  case (tcp_handle i c be bytes data outcome connects exchange)
  have "causal (label_caused H P) tr" using assms(1) by (simp add: causes_ok_def)
  note causal_got [OF this tcp_handle(7)]
  with assms(1) tcp_handle(1,2) show ?thesis
    by (simp add: causes_ok_def all_caused_mono list_all_update)
next
  case (tcp_forward i c ev evs)
  then have "list_all (caused H P tr) (ev # evs)"
    using assms(1) list_all_nth [OF _ tcp_forward(3)] by (metis causes_ok_def)
  with assms(1) tcp_forward(1,2) show ?thesis
    by (auto simp: causes_ok_def causal_did
        intro!: list_all_update all_caused_mono list.pred_mono_strong [OF _ caused_mono])
next
  case (tcp_load i c be bytes)
  then have "list_all (caused H P tr) (conn_pending c)"
    using assms(1) list_all_nth [OF _ tcp_load(3)] by (simp add: causes_ok_def)
  with assms(1) tcp_load(1,2) show ?thesis by (simp add: causes_ok_def list_all_update)
next
  case (tcp_close i)
  with assms(1) show ?thesis by (simp add: causes_ok_def list_all_drop_nth)
qed (use assms(1) in \<open>simp_all add: causes_ok_def\<close>)

interpretation cause_trace: trace_invariant "(=) proc_init"
  "proc_step H P cfg watching admissible" "causes_ok H P"
  for H :: "('n, 'r, 'x) hickory" and P :: "'e platform" and cfg watching admissible
  by unfold_locales (simp add: causes_ok_def proc_init_def, blast intro: proc_step_causes)


section \<open>Replies\<close>

lemma handled_now_sends:
  "ev \<in> set (handled_now outcome) \<longleftrightarrow> (\<exists>s. outcome = Replied (Some s) \<and> ev = Sending s)"
  by (auto simp: handled_now_def split: outcome.split option.split)

lemma handled_later_events:
  assumes "ev \<in> set (handled_later H connects exchange (process_message H uni data (bytes, src) proto))"
  obtains ns m t where "process_message H uni data (bytes, src) proto = Forwarded ns src m proto"
    "ev \<in> set (forward_loop H connects exchange t proto src m ns)"
proof -
  obtain ns dst m p where fw: "process_message H uni data (bytes, src) proto = Forwarded ns dst m p"
    using assms
    by (cases "process_message H uni data (bytes, src) proto") (auto simp: handled_later_def)
  then have "dst = src" "p = proto" unfolding forwarded_iff by blast+
  with assms fw that show thesis
    by (auto simp: handled_later_def forward_to_servers_def split: option.splits)
qed

text \<open>What was done, and the message that caused it.\<close>

lemma did_cause:
  assumes "proc_run H P cfg watching admissible tr s" and "i < length tr" and "tr ! i = Did ev"
  obtains j data bytes src proto where "j < i" "tr ! j = Got data (bytes, src) proto"
    "ev \<in> set (handled_now (process_message H (pl_uni P) data (bytes, src) proto)) \<or>
      (\<exists>connects exchange. ev \<in> set (handled_later H connects exchange
         (process_message H (pl_uni P) data (bytes, src) proto)))"
proof -
  have "causal (label_caused H P) tr" using cause_trace.holds [OF assms(1)] by (simp add: causes_ok_def)
  from causal_nth [OF this assms(2)] assms(3) have "caused H P (take i tr) ev"
    by (simp add: label_caused_def)
  then obtain data msg proto where "Got data msg proto \<in> set (take i tr)"
    and cause: "ev \<in> set (handled_now (process_message H (pl_uni P) data msg proto)) \<or>
      (\<exists>connects exchange. ev \<in> set (handled_later H connects exchange
         (process_message H (pl_uni P) data msg proto)))"
    unfolding caused_def by blast
  then obtain j where "j < i" "tr ! j = Got data msg proto"
    using assms(2) by (auto simp: in_set_conv_nth)
  with cause that show thesis by (cases msg) blast
qed

text \<open>C3: Every reply answers a request: in every run, whatever is sent, by the server itself or by a
  forwarding task, over UDP or TCP and across any number of reloads, goes to an address a request
  was received from earlier, and carries the identifier of that request.\<close>

theorem replies_answer_requests:
  assumes "hickory_ok H" and "proc_run H P cfg watching admissible tr s"
    and "i < length tr" and "tr ! i = Did (Sending (answer, dst))"
  shows "\<exists>j data bytes proto req m. j < i \<and> tr ! j = Got data (bytes, dst) proto \<and>
    from_vec H bytes = Some req \<and> to_vec H m = Some answer \<and> msg_id m = msg_id req"
proof -
  obtain j data bytes src proto where j: "j < i" "tr ! j = Got data (bytes, src) proto"
    and cause: "Sending (answer, dst) \<in> set (handled_now (process_message H (pl_uni P) data (bytes, src) proto)) \<or>
      (\<exists>connects exchange. Sending (answer, dst) \<in> set (handled_later H connects exchange
         (process_message H (pl_uni P) data (bytes, src) proto)))"
    by (rule did_cause [OF assms(2-4)])
  have "dst = src \<and> (\<exists>req m. from_vec H bytes = Some req \<and> to_vec H m = Some answer \<and> msg_id m = msg_id req)"
    using cause
  proof (elim disjE exE)
    assume "Sending (answer, dst) \<in> set (handled_now (process_message H (pl_uni P) data (bytes, src) proto))"
    then have "process_message H (pl_uni P) data (bytes, src) proto = Replied (Some (answer, dst))"
      by (simp add: handled_now_sends)
    from replied_request [OF assms(1) this] show ?thesis by blast
  next
    fix connects exchange
    assume "Sending (answer, dst) \<in> set (handled_later H connects exchange
      (process_message H (pl_uni P) data (bytes, src) proto))"
    then obtain ns m t where fw: "process_message H (pl_uni P) data (bytes, src) proto = Forwarded ns src m proto"
      and ev: "Sending (answer, dst) \<in> set (forward_loop H connects exchange t proto src m ns)"
      by (rule handled_later_events)
    have "from_vec H bytes = Some m"
      using fw unfolding forwarded_iff parse_dns_msg_def by (auto split: option.splits list.splits)
    moreover obtain addr where "server_reply H connects exchange proto src m addr = Some (answer, dst)"
      using forward_loop_events [OF ev] by auto
    ultimately show ?thesis using server_reply_response [OF assms(1)] by blast
  qed
  with j show ?thesis by blast
qed

theorem replies_answer_requests_witness:
  "\<exists>tr s answer data. proc_run wire sample_platform sample_settings True (\<lambda>w. w = sample_world) tr s \<and>
     tr ! 0 = Got data (sample_bytes, sample_client) Udp \<and> tr ! 2 = Did (Sending (answer, sample_client)) \<and>
     (\<exists>j bytes req m. j < (2 :: nat) \<and> from_vec wire bytes = Some req \<and> to_vec wire m = Some answer \<and> msg_id m = msg_id req)"
proof -
  obtain data answer s where run: "proc_run wire sample_platform sample_settings True (\<lambda>w. w = sample_world)
     [Got data (sample_bytes, sample_client) Udp,
      Did (Asking host_server sample_message (5 * 10 ^ 9)), Did (Sending (answer, sample_client))] s"
    (is "proc_run _ _ _ _ _ ?tr s")
    using sample_run by blast
  have sent: "2 < length ?tr" "?tr ! 2 = Did (Sending (answer, sample_client))" by simp_all
  have "?tr ! 0 = Got data (sample_bytes, sample_client) Udp" by simp
  with replies_answer_requests [OF wire_ok run sent] run sent(2) show ?thesis by blast
qed

section \<open>At most one reply for each request\<close>

fun did :: "'m label list \<Rightarrow> 'm forward_event list" where
  "did [] = []"
| "did (Did ev # ls) = ev # did ls"
| "did (Got data msg proto # ls) = did ls"

fun received_from :: "socket_addr \<Rightarrow> 'm label list \<Rightarrow> nat" where
  "received_from a [] = 0"
| "received_from a (Did ev # ls) = received_from a ls"
| "received_from a (Got data msg proto # ls) = (if snd msg = a then 1 else 0) + received_from a ls"

definition sent_to :: "socket_addr \<Rightarrow> 'm forward_event list \<Rightarrow> nat" where
  "sent_to a evs = length (filter (\<lambda>s. snd s = a) (sent evs))"

definition waiting_for :: "socket_addr \<Rightarrow> 'm process \<Rightarrow> nat" where
  "waiting_for a s = sum_list (map (sent_to a) (proc_forwards s)) +
     sum_list (map (\<lambda>c. sent_to a (conn_pending c)) (proc_connections s))"

definition replies_ok :: "socket_addr \<Rightarrow> 'm label list \<Rightarrow> 'm process \<Rightarrow> bool" where
  "replies_ok a tr s \<longleftrightarrow> sent_to a (did tr) + waiting_for a s \<le> received_from a tr"

lemma did_append [simp]: "did (tr @ ls) = did tr @ did ls"
  by (induction tr rule: did.induct) simp_all

lemma did_map [simp]: "did (map Did evs) = evs"
  by (induction evs) simp_all

lemma received_from_append [simp]: "received_from a (tr @ ls) = received_from a tr + received_from a ls"
  by (induction a tr rule: received_from.induct) simp_all

lemma received_from_did [simp]: "received_from a (map Did evs) = 0"
  by (induction evs) simp_all

lemma sent_to_append: "sent_to a (evs @ evs') = sent_to a evs + sent_to a evs'"
  by (simp add: sent_to_def sent_append)

lemma sent_to_Cons: "sent_to a (ev # evs) = sent_to a [ev] + sent_to a evs"
  using sent_to_append [of a "[ev]" evs] by simp

lemma sent_to_Nil [simp]: "sent_to a [] = 0"
  by (simp add: sent_to_def)

lemma handled_once:
  assumes "outcome = process_message H uni data msg proto"
  shows "sent_to a (handled_now outcome) + sent_to a (handled_later H connects exchange outcome) \<le>
    (if snd msg = a then 1 else 0)"
proof -
  obtain bytes src where msg: "msg = (bytes, src)" by (cases msg)
  show ?thesis
  proof (cases outcome)
    case Ignored
    then show ?thesis by (simp add: handled_now_def handled_later_def)
  next
    case (Replied r)
    have "dst = src" if "r = Some (answer, dst)" for answer dst
      using Replied that assms unfolding msg
      by (auto simp: process_message_def reply_def split: option.splits prod.splits if_splits)
    with Replied show ?thesis
      by (cases r) (auto simp: handled_now_def handled_later_def sent_to_def msg)
  next
    case (Forwarded ns dst m p)
    have one: "sent_to a (forward_loop H connects exchange t p dst m ns) \<le> (if dst = a then 1 else 0)" for t
    proof -
      have "snd s = dst" if "s \<in> set (sent (forward_loop H connects exchange t p dst m ns))" for s
        using forward_loop_events [of "Sending s" H connects exchange t p dst m ns] that
        by (auto simp: set_sent dest: server_reply_dst)
      then have "dst \<noteq> a \<Longrightarrow> sent_to a (forward_loop H connects exchange t p dst m ns) = 0"
        by (auto simp: sent_to_def filter_empty_conv)
      moreover have "sent_to a (forward_loop H connects exchange t p dst m ns) \<le> 1"
        unfolding sent_to_def by (rule order_trans [OF length_filter_le forward_loop_sends_once])
      ultimately show ?thesis by (cases "dst = a") simp_all
    qed
    have "dst = src" using Forwarded assms unfolding msg by (metis forwarded_iff)
    with Forwarded one show ?thesis
      by (auto simp: handled_now_def handled_later_def forward_to_servers_def msg split: option.split)
  qed
qed

lemma waiting_update:
  assumes "i < length (proc_connections s)"
  shows "waiting_for a (s\<lparr>proc_connections := (proc_connections s)[i := c]\<rparr>) +
      sent_to a (conn_pending (proc_connections s ! i)) = waiting_for a s + sent_to a (conn_pending c)"
  using sum_list_map_update [OF assms, of "\<lambda>c. sent_to a (conn_pending c)" c]
  by (simp add: waiting_for_def)

lemma proc_step_replies:
  assumes "replies_ok a tr s" and "proc_step H P cfg watching admissible s ls s'"
  shows "replies_ok a (tr @ ls) s'"
  using assms(2)
proof (cases rule: proc_step.cases)
  case (udp_handle i t be msg data outcome connects exchange)
  with assms(1) handled_once [OF udp_handle(6), of a connects exchange] show ?thesis
    by (simp add: replies_ok_def waiting_for_def sent_to_append)
next
  case (forward i ev evs)
  then have "sum_list (map (sent_to a) (proc_forwards s)) =
      sum_list (map (sent_to a) ((proc_forwards s)[i := evs])) + sent_to a [ev]"
    using sum_list_map_update [OF forward(3), of "sent_to a" evs] sent_to_Cons [of a ev evs] by simp
  with assms(1) forward(1,2) show ?thesis
    by (simp add: replies_ok_def waiting_for_def sent_to_append)
next
  case (tcp_handle i c be bytes data outcome connects exchange)
  with assms(1) handled_once [OF tcp_handle(7), of a connects exchange]
    waiting_update [OF tcp_handle(3), of a "c\<lparr>conn_loaded := None,
      conn_pending := handled_later H connects exchange outcome\<rparr>"]
  show ?thesis by (simp add: replies_ok_def sent_to_append)
next
  case (tcp_forward i c ev evs)
  with assms(1) waiting_update [OF tcp_forward(3), of a "c\<lparr>conn_pending := evs\<rparr>"]
    sent_to_Cons [of a ev evs] show ?thesis
    by (simp add: replies_ok_def sent_to_append)
next
  case (tcp_load i c be bytes)
  with assms(1) waiting_update [OF tcp_load(3), of a] show ?thesis by (simp add: replies_ok_def)
next
  case (tcp_close i)
  with assms(1) sum_list_drop_nth [of "\<lambda>c. sent_to a (conn_pending c)" i "proc_connections s"]
  show ?thesis by (simp add: replies_ok_def waiting_for_def)
qed (use assms(1) in \<open>simp_all add: replies_ok_def waiting_for_def\<close>)

interpretation reply_trace: trace_invariant "(=) proc_init"
  "proc_step H P cfg watching admissible" "replies_ok a"
  for H :: "('n, 'r, 'x) hickory" and P :: "'e platform" and cfg watching admissible a
  by unfold_locales
    (simp add: replies_ok_def waiting_for_def proc_init_def, blast intro: proc_step_replies)

text \<open>C8: The server cannot be used to flood anyone: in every run and for every address, at most as
  many replies are sent to the address as requests were received from it, counting the replies
  that forwarding tasks may still send.\<close>

theorem no_more_replies_than_requests:
  assumes "proc_run H P cfg watching admissible tr s"
  shows "sent_to a (did tr) + waiting_for a s \<le> received_from a tr"
  using reply_trace.holds [OF assms] unfolding replies_ok_def .

theorem no_more_replies_than_requests_witness:
  "\<exists>tr s. proc_run wire sample_platform sample_settings True (\<lambda>w. w = sample_world) tr s \<and>
     sent_to sample_client (did tr) = 1 \<and> received_from sample_client tr = 1 \<and>
     waiting_for sample_client s = 0"
proof -
  obtain data answer s where run: "proc_run wire sample_platform sample_settings True (\<lambda>w. w = sample_world)
     [Got data (sample_bytes, sample_client) Udp,
      Did (Asking host_server sample_message (5 * 10 ^ 9)), Did (Sending (answer, sample_client))] s"
    using sample_run by blast
  from no_more_replies_than_requests [OF this, of sample_client] run show ?thesis
    by (intro exI [of _ "[Got data (sample_bytes, sample_client) Udp,
      Did (Asking host_server sample_message (5 * 10 ^ 9)), Did (Sending (answer, sample_client))]"]
      exI [of _ s]) (simp add: sent_to_def)
qed

section \<open>What leaves the host\<close>

text \<open>C2: In every run, whatever the process asks of an upstream server is the unchanged request of a
  message received earlier, whose requester is not in networks only that count as internal by the
  files of the reload the message was handled with, while forwarding is not disabled; and the server asked
  is one those files configure for the requester or one of the host at that moment.  A reload
  that comes between the message and the question changes nothing of this.\<close>

theorem upstream_only_when_allowed:
  assumes "platform_ok P" and "proc_run H P cfg watching admissible tr s"
    and "i < length tr" and "tr ! i = Did (Asking addr m t)"
  shows "\<exists>j data bytes src proto w configs. j < i \<and> tr ! j = Got data (bytes, src) proto \<and>
    from_vec H bytes = Some m \<and> admissible w \<and> w_read_dir w = Inr configs \<and>
    \<not> no_proxy_env cfg \<and>
    \<not> internal_only (config_files (pl_uni P) configs) (socket_ip src) \<and>
    (addr \<in> set (nameservers data) \<or>
     (\<exists>d. addr = socket_new d DNS_PORT \<and>
        (container_server (config_files (pl_uni P) configs) (socket_ip src) d \<or>
         network_server (config_files (pl_uni P) configs) (socket_ip src) d)))"
proof -
  obtain j data bytes src proto where j: "j < i" "tr ! j = Got data (bytes, src) proto"
    and cause: "Asking addr m t \<in> set (handled_now (process_message H (pl_uni P) data (bytes, src) proto)) \<or>
      (\<exists>connects exchange. Asking addr m t \<in> set (handled_later H connects exchange
         (process_message H (pl_uni P) data (bytes, src) proto)))"
    by (rule did_cause [OF assms(2-4)])
  then obtain connects exchange where later: "Asking addr m t \<in> set (handled_later H connects exchange
      (process_message H (pl_uni P) data (bytes, src) proto))"
    unfolding handled_now_sends by blast
  from later obtain ns m' t' where
    fw: "process_message H (pl_uni P) data (bytes, src) proto = Forwarded ns src m' proto"
    and ev: "Asking addr m t \<in> set (forward_loop H connects exchange t' proto src m' ns)"
    by (rule handled_later_events)
  from forward_loop_events [OF ev] have addr: "addr \<in> set ns" "m = m'" by simp_all
  have m: "from_vec H bytes = Some m"
    using fw addr(2) unfolding forwarded_iff parse_dns_msg_def by (auto split: option.splits list.splits)
  have fw': "may_forward data (socket_ip src) n \<Longrightarrow> \<not> no_proxy data \<and> \<not> ctr_is_internal (backend data) (socket_ip src)" for n
    by (simp add: may_forward_def)
  with fw have allowed: "\<not> no_proxy data" "\<not> ctr_is_internal (backend data) (socket_ip src)"
    "ns = upstream_servers data (socket_ip src)"
    unfolding forwarded_iff by blast+
  have "list_all (label_admitted P cfg admissible) tr"
    using store_trace.holds [OF assms(2)] by (simp add: stores_ok_def)
  from list_all_nth [OF this, of j] j assms(3) obtain w where
    w: "admissible w" "loaded_from P cfg w (backend data)" and "no_proxy data = no_proxy_env cfg"
    by (auto simp: label_admitted_def admitted_def)
  obtain configs l4 l6 where c: "w_read_dir w = Inr configs" "store_of (pl_order P)
      (config_files (pl_uni P) configs) (filter_search_domain cfg) = (backend data, l4, l6)"
    using loaded_from_files [OF assms(1) w(2)] by blast
  have order: "hash_order (pl_order P)" using assms(1) by (simp add: platform_ok_def)
  let ?F = "config_files (pl_uni P) configs"
  have "\<not> internal_only ?F (socket_ip src)"
    using allowed(2) unfolding store_ctr_is_internal [OF order c(2)] .
  moreover have "addr \<in> set (nameservers data) \<or> (\<exists>d. addr = socket_new d DNS_PORT \<and>
      (container_server ?F (socket_ip src) d \<or> network_server ?F (socket_ip src) d))"
  proof (cases "custom_resolvers (backend data) (socket_ip src) = []")
    case True
    with addr(1) show ?thesis by (simp add: allowed(3) upstream_servers_def)
  next
    case False
    with addr(1) have "addr \<in> set (custom_resolvers (backend data) (socket_ip src))"
      by (simp add: allowed(3) upstream_servers_def Let_def)
    from custom_resolvers_configured [OF order c(2) this] show ?thesis by blast
  qed
  ultimately show ?thesis
    using j m w(1) c(1) allowed(1) \<open>no_proxy data = no_proxy_env cfg\<close> by blast
qed

theorem upstream_only_when_allowed_witness:
  "\<exists>tr s data src proto. proc_run wire sample_platform sample_settings True (\<lambda>w. w = sample_world) tr s \<and>
     tr ! 1 = Did (Asking host_server sample_message (5 * 10 ^ 9)) \<and>
     tr ! 0 = Got data (sample_bytes, sample_client) Udp \<and> \<not> no_proxy_env sample_settings \<and>
     (\<exists>bytes. from_vec wire bytes = Some sample_message)"
proof -
  obtain data answer s where run: "proc_run wire sample_platform sample_settings True (\<lambda>w. w = sample_world)
     [Got data (sample_bytes, sample_client) Udp,
      Did (Asking host_server sample_message (5 * 10 ^ 9)), Did (Sending (answer, sample_client))] s"
    (is "proc_run _ _ _ _ _ ?tr s")
    using sample_run by blast
  have asked: "1 < length ?tr" "?tr ! 1 = Did (Asking host_server sample_message (5 * 10 ^ 9))" by simp_all
  have "?tr ! 0 = Got data (sample_bytes, sample_client) Udp" by simp
  with upstream_only_when_allowed [OF sample_platform_ok run asked] run asked(2) show ?thesis by blast
qed

text \<open>C6: At every moment of every run, in the middle of a reload as well as between two, and from the
  first step of the start-up on, each listen address has one task under its key, no two living
  tasks hold the same socket, at most three servers of the host are kept, all on port 53, and
  the next phase of a reload cannot make the process panic.\<close>

theorem process_invariant:
  assumes "platform_ok P" and "\<And>w. admissible w \<Longrightarrow> bind_excludes (w_bind w)"
    and "proc_run H P cfg watching admissible tr s"
  shows "handles_ok V4 (port cfg) (handles_v4 (proc_server s)) \<and>
    handles_ok V6 (port cfg) (handles_v6 (proc_server s)) \<and>
    distinct (map task_socket (live_tasks (proc_server s))) \<and>
    length (host_nameservers (proc_server s)) \<le> 3 \<and>
    list_all (\<lambda>a. socket_port a = DNS_PORT) (host_nameservers (proc_server s)) \<and>
    (case proc_phase s of
       Some ph \<Rightarrow> run_phase P cfg ph (proc_server s) \<noteq> Done Panicked
     | None \<Rightarrow> True)"
proof -
  have ok: "proc_server_ok cfg admissible s"
    using server_trace.holds [OF assms(3)] assms(1,2) by blast
  have "run_phase P cfg ph (proc_server s) \<noteq> Done Panicked" if "proc_phase s = Some ph" for ph
    using run_phase_step [OF assms(1) assms(2), of ph cfg "proc_server s"] ok that
    by (auto simp: proc_server_ok_def split: progress.splits)
  moreover have "map task_socket (live_tasks sv) = held (handles_v4 sv) @ held (handles_v6 sv)" for sv
    by (simp add: live_tasks_def held_def filter_map comp_def)
  ultimately show ?thesis
    using ok by (auto simp: proc_server_ok_def server_inv_def tasks_ok_def sockets_ok_def
        nameservers_ok_def split: option.split)
qed

theorem process_invariant_witness:
  "\<exists>tr s. proc_run wire sample_platform sample_settings True (\<lambda>w. w = sample_world) tr s \<and> tr \<noteq> [] \<and>
     handles_ok V4 53 (handles_v4 (proc_server s)) \<and> length (host_nameservers (proc_server s)) \<le> 3"
proof -
  obtain data answer s where run: "proc_run wire sample_platform sample_settings True (\<lambda>w. w = sample_world)
     [Got data (sample_bytes, sample_client) Udp,
      Did (Asking host_server sample_message (5 * 10 ^ 9)), Did (Sending (answer, sample_client))] s"
    using sample_run by blast
  have "bind_excludes (w_bind w)" if "w = sample_world" for w
    using that strict_bind_ok by (simp add: sample_world_def)
  from process_invariant [OF sample_platform_ok this run] run show ?thesis
    by (auto simp: sample_settings_def)
qed

end
