(* ===== verification/Build.thy ===== *)
theory Build
  imports Commands
begin

text \<open>
  The build script \<open>build.rs\<close>, which prints instructions for Cargo, and the way its results come
  back in the \<open>version\<close> command.  The functions of the chrono crate and the environment of the
  script are arguments; \<open>None\<close> is the panic of an \<open>unwrap\<close>.
\<close>

section \<open>The script\<close>

text \<open>\<open>str::parse::<i64>\<close>: an optional sign, then decimal digits, within 64 bits.\<close>

definition parse_i64 :: "string \<Rightarrow> int option" where
  "parse_i64 s =
     (let (negative, digits) = (case s of
            c # cs \<Rightarrow> if c = CHR ''-'' then (True, cs) else if c = CHR ''+'' then (False, cs) else (False, s)
          | [] \<Rightarrow> (False, []))
      in if digits = [] \<or> \<not> list_all (\<lambda>c. to_digit 10 c \<noteq> None) digits then None
         else (let n = digits_value 10 (map (\<lambda>c. the (to_digit 10 c)) digits);
                   v = (if negative then - n else n)
               in if - (2 ^ 63) \<le> v \<and> v < 2 ^ 63 then Some v else None))"

definition build_timestamp :: "(int \<Rightarrow> 'd option) \<Rightarrow> 'd \<Rightarrow> string option \<Rightarrow> 'd option" where
  "build_timestamp from_timestamp utc_now source_date_epoch =
     (case source_date_epoch of
        Some val \<Rightarrow> (case parse_i64 val of Some secs \<Rightarrow> from_timestamp secs | None \<Rightarrow> None)
      | None \<Rightarrow> Some utc_now)"

text \<open>The output of git, or the error of running it.\<close>

definition build_commit :: "io_error + string \<Rightarrow> string option" where
  "build_commit command =
     (case command of
        Inr output \<Rightarrow> if utf8_valid output then Some output else None
      | Inl e \<Rightarrow> Some [])"

definition println :: "string \<Rightarrow> string" where
  "println s = s @ [CHR 0x0A]"

definition build_main ::
  "(int \<Rightarrow> 'd option) \<Rightarrow> ('d \<Rightarrow> string) \<Rightarrow> 'd \<Rightarrow> string option \<Rightarrow> string option \<Rightarrow>
   io_error + string \<Rightarrow> string option" where
  "build_main from_timestamp to_rfc3339 utc_now source_date_epoch target command =
     (case build_timestamp from_timestamp utc_now source_date_epoch of
        None \<Rightarrow> None
      | Some now \<Rightarrow>
          (case target of
             None \<Rightarrow> None
           | Some target \<Rightarrow>
               (case build_commit command of
                  None \<Rightarrow> None
                | Some commit \<Rightarrow>
                    Some (println ''cargo:rerun-if-changed=build.rs'' @
                      println (''cargo:rustc-env=BUILD_TIMESTAMP='' @ to_rfc3339 now) @
                      println (''cargo:rustc-env=BUILD_TARGET='' @ target) @
                      println (''cargo:rustc-env=GIT_COMMIT='' @ commit)))))"

section \<open>What the version command shows of it\<close>

text \<open>
  Cargo reads the output of the script line by line and passes the value of a line
  \<open>cargo:rustc-env=VAR=VALUE\<close> to the compiler, where \<open>env!\<close> finds it.
\<close>

definition rustc_env :: "string \<Rightarrow> string \<Rightarrow> string option" where
  "rustc_env var out =
     (let prefix = ''cargo:rustc-env='' @ var @ ''='';
          found = filter (\<lambda>l. take (length prefix) l = prefix) (split_char CHR 0x0A out)
      in case found of l # ls \<Rightarrow> Some (drop (length prefix) l) | [] \<Rightarrow> None)"

lemma split_println:
  "CHR 0x0A \<notin> set s \<Longrightarrow> split_char CHR 0x0A (println s @ rest) = s # split_char CHR 0x0A rest"
  unfolding println_def by (simp add: split_char_append)

text \<open>
  The line break git prints after the commit ends the line early, so the variable holds the
  commit alone and the empty line that follows is no instruction.
\<close>

lemma build_main_env:
  assumes "build_main from_timestamp to_rfc3339 utc_now epoch (Some target) (Inr (commit @ [CHR 0x0A])) =
      Some out"
    and "build_timestamp from_timestamp utc_now epoch = Some now"
    and "CHR 0x0A \<notin> set (to_rfc3339 now @ target @ commit)"
  shows "rustc_env ''BUILD_TIMESTAMP'' out = Some (to_rfc3339 now)"
    and "rustc_env ''BUILD_TARGET'' out = Some target"
    and "rustc_env ''GIT_COMMIT'' out = Some commit"
proof -
  have lines: "split_char CHR 0x0A out =
      [''cargo:rerun-if-changed=build.rs'', ''cargo:rustc-env=BUILD_TIMESTAMP='' @ to_rfc3339 now,
       ''cargo:rustc-env=BUILD_TARGET='' @ target, ''cargo:rustc-env=GIT_COMMIT='' @ commit, [], []]"
  proof -
    have "out = println ''cargo:rerun-if-changed=build.rs'' @
        println (''cargo:rustc-env=BUILD_TIMESTAMP='' @ to_rfc3339 now) @
        println (''cargo:rustc-env=BUILD_TARGET='' @ target) @
        println (''cargo:rustc-env=GIT_COMMIT='' @ commit) @ println [] @ []"
      using assms(1,2) by (simp add: build_main_def build_commit_def println_def split: if_splits)
    moreover have "CHR 0x0A \<notin> set ''cargo:rerun-if-changed=build.rs''"
      "CHR 0x0A \<notin> set (''cargo:rustc-env=BUILD_TIMESTAMP='' @ to_rfc3339 now)"
      "CHR 0x0A \<notin> set (''cargo:rustc-env=BUILD_TARGET='' @ target)"
      "CHR 0x0A \<notin> set (''cargo:rustc-env=GIT_COMMIT='' @ commit)" "CHR 0x0A \<notin> set []"
      using assms(3) by simp_all
    ultimately show ?thesis by (simp only: split_println split_char.simps(1) not_False_eq_True)
  qed
  show "rustc_env ''BUILD_TIMESTAMP'' out = Some (to_rfc3339 now)"
    "rustc_env ''BUILD_TARGET'' out = Some target" "rustc_env ''GIT_COMMIT'' out = Some commit"
    unfolding rustc_env_def lines by simp_all
qed

lemma build_main_panics:
  "build_main from_timestamp to_rfc3339 utc_now epoch target command = None \<longleftrightarrow>
     build_timestamp from_timestamp utc_now epoch = None \<or> target = None \<or> build_commit command = None"
  by (auto simp: build_main_def split: option.splits)

end
