(* ===== verification/Spec2Isabelle.thy ===== *)
theory Spec2Isabelle
  imports Process_Props Build
begin

text \<open>
  A verification library of aardvark-dns, the DNS server of container networks.  Podman writes one
  file per network into a configuration directory and sends SIGHUP to the server, which loads the
  directory into a store, serves every listed address with a task of its own, answers queries for
  containers from the store and forwards the others to upstream servers.

  \<^bold>\<open>The program and its theories.\<close>
    \<^item> \<open>Prelude\<close>, \<open>Rust_Str\<close>, \<open>Ip_Addr\<close>: association lists that stand for hash maps (\<open>upsert\<close>,
      \<open>nested_get\<close>, and \<open>hash_order\<close> for an arbitrary iteration order), the functions of Rust's
      \<open>str\<close>, \<open>IpAddr\<close> and \<open>SocketAddr\<close> the program calls.  A string is the list of its UTF-8 bytes.
    \<^item> \<open>Aardvark_Error\<close>: \<open>src/error.rs\<close>.
    \<^item> \<open>Backend\<close>, \<open>Backend_Props\<close>: \<open>src/backend/mod.rs\<close>, the store \<open>DNSBackend\<close> as the record
      \<open>dns_backend\<close>; lookups, reverse lookups, resolvers and the internal check.
    \<^item> \<open>Config\<close>, \<open>Config_Dir\<close>: \<open>src/config/mod.rs\<close>, \<open>parse_config\<close> (one file) and \<open>parse_configs\<close> (the
      directory, with the local maps as the record \<open>config_state\<close>).  \<open>Config_Spec\<close> states what a list
      of configuration files means (\<open>entry_in\<close>, \<open>owns\<close>, \<open>member_of\<close>, \<open>may_see\<close>, \<open>named\<close>,
      \<open>network_flag\<close>, \<open>internal_only\<close>), and \<open>Config_Props\<close> that the loader builds a store with that
      meaning.
    \<^item> \<open>Resolv_Conf\<close>: \<open>parse_resolv_conf\<close> and \<open>get_upstream_resolvers\<close> of \<open>src/server/serve.rs\<close>.
    \<^item> \<open>Dns_Message\<close>, \<open>Core_Dns\<close>, \<open>Ptr_Names\<close>, \<open>Dns_Props\<close>: \<open>process_message\<close> of
      \<open>src/dns/coredns.rs\<close> with \<open>parse_dns_msg\<close>, \<open>reply\<close>, \<open>reply_ptr\<close> and \<open>reply_ip\<close>.
    \<^item> \<open>Forwarding\<close>: \<open>forward_to_servers\<close> and \<open>forward_dns_req\<close> of the same file.
    \<^item> \<open>Core_Loop\<close>: \<open>CoreDns::run\<close> and \<open>process_tcp_stream\<close> as functions of a sequence of events.
    \<^item> \<open>Threads\<close>: \<open>stop_threads\<close>, \<open>stop_and_start_threads\<close> and \<open>start_dns_server\<close> of
      \<open>src/server/serve.rs\<close>, generic in the address type.
    \<^item> \<open>Server\<close>, \<open>Server_Props\<close>: \<open>read_config_and_spawn\<close>, \<open>daemonize\<close> and \<open>serve\<close>.  The
      start-up is \<open>serve_ready\<close>, with the byte it writes for the parent process; \<open>loop_round\<close> is what
      \<open>select!\<close> evaluates before it waits, which panics when \<open>get_inotify_event_stream\<close> gave no stream;
      one event of the loop is the step relation \<open>serve_step\<close>, and \<open>reachable\<close> are the states of a
      server that was started and entered its loop.
    \<^item> \<open>Commands\<close>: \<open>create_pid\<close>, \<open>src/commands/run.rs\<close>, \<open>src/commands/version.rs\<close> and
      \<open>src/main.rs\<close>; \<open>Build\<close>: \<open>build.rs\<close>, whose results the version command shows.
    \<^item> \<open>Reload\<close>: \<open>read_config_and_spawn\<close> once more, cut into the phases between which the other
      tasks run, with the proof that the phases refine the uninterrupted reload.
    \<^item> \<open>Interleaving\<close>: the state of the whole process (server, phase of a reload, messages being
      handled, forwarding tasks, TCP connections) and its steps \<open>proc_step\<close>, in any order the source
      allows.  \<open>Process_Runs\<close>: runs for the witnesses, among them those of the uninterrupted server.
      \<open>Process_Props\<close>: what holds in every run.
    \<^item> \<open>System\<close> and this theory: statements that span the components.

  \<^bold>\<open>Interfaces.\<close>  The locales are the laws one part asks of another: \<open>listen_family\<close> (the conversion
  of an address type, interpreted for IPv4 and IPv6), \<open>group_format\<close> (printing the groups of an
  address), \<open>multimap\<close> (the maps the loader fills) and \<open>trace_invariant\<close> (an invariant of the runs
  of the process, interpreted once for the server, the stores, the causes and the replies); each
  is interpreted on the model's definitions.

  \<^bold>\<open>What the lemmas show.\<close>  Parsing: documented files are read back exactly, a faulty file is
  skipped, \<open>resolv.conf\<close> is refined by a one-line specification.  The store: lookups, reverse lookups,
  listen addresses and the internal check agree with the meaning of the files, whatever the order
  of the directory and of the hash maps.  Messages: which queries are answered, refused or forwarded,
  with which records and to whom.  Forwarding: order of the servers, identifier of the answer, time.
  Tasks and server: invariants of every reachable state, the outcome of each kind of reload, start-up
  and exit, and what the parent process reports.  The whole process: every reply answers an earlier request and there are never more
  replies than requests, nothing is asked of an upstream server that may not be, the invariants of
  the server hold in the middle of a reload too.  This theory: from the
  files to the bytes of the answer, and isolation.

  \<^bold>\<open>Bounds and time.\<close>  Octets, ports and groups are words of their width; lengths are \<open>nat\<close>.
  No definition needs fuel: loops over input recurse on it, and the loops of the tasks on the sequence
  of events they are given.  Timeouts are \<open>nat\<close>: nanoseconds in \<open>Forwarding\<close> (five seconds divided by
  the number of servers, a division that panics when that number is a multiple of 2 to the 32),
  milliseconds in \<open>Core_Loop\<close> (three seconds of silence).

  \<^bold>\<open>Parameters and hypotheses.\<close>  Code outside the repository is an argument: \<open>uni\<close> is the part of
  \<open>to_lowercase\<close> that concerns texts which are not ASCII; \<open>hickory\<close> holds the functions of the DNS
  library, of which \<open>hickory_ok\<close> asks that \<open>into_response\<close> keeps the fields the program uses and that
  \<open>add_answer\<close> appends; \<open>hash_order\<close> asks that an iteration visits each key once; \<open>bind_excludes\<close> that
  the system refuses an address in use, \<open>bind_free\<close> that it refuses no other; \<open>platform_ok\<close> collects
  the iteration orders, any fixed one for each hash map.  \<open>exchange\<close> and \<open>connects\<close> are the upstream servers.  The record \<open>world\<close> is
  what one reload reads of the file system.

  \<^bold>\<open>Interleaving.\<close>  A task loads the store and later locks the list of the host's servers, so these
  are two steps; handling the message in between changes nothing that is shared.  The phases of a
  reload are cut where its effects become visible: inside one, no message can tell their order.
  A task that is being stopped may still handle a message it has loaded; a TCP connection goes on
  after the task that accepted it has been stopped, with the network name of that task.  What is
  sent is what is handed to the sender of the message.  A task that ends by itself may do so at
  any time.  When a reload ends the process there is no further step.  A process whose loop has
  panicked (\<open>Loop_Panicked\<close>) takes no signal any more; its tasks may go on until it is gone.

  \<^bold>\<open>Not modelled.\<close>  Log lines of level debug, trace and info, and the error lines of a single query;
  a poisoned mutex (no code that holds one can panic); \<open>setsid\<close> and the redirections, whose results
  the program ignores; the tests.  The option parser, the logger, the kernel, the DNS library and
  Cargo are arguments of the definitions that call them.
\<close>

section \<open>From configuration files to answers\<close>

text \<open>C1: Name resolution is complete and isolated, from the configuration files to the message
  on the wire.  An A or AAAA query is answered with exactly the addresses of the requested
  family that some file gives to the queried name in a network the requester may see; when
  there are none in either family, the reply adds no record and says NXDOMAIN, or the query is
  forwarded unchanged.  So no container learns an address of a network it does not share.\<close>

theorem address_answers_complete_and_isolated:
  assumes "hickory_ok H" and "hash_order order"
    and "parse_configs uni order dir is_dir (Inr configs) domain = (log, Inr (backend data, l4, l6))"
    and "parse_dns_msg H (bytes, src) = Some (n, rt, req)" and "address_type rt"
    and "addrs = visible_to (config_files uni configs) (socket_ip src) (network_name data)
      (lookup_name uni (search_domain (backend data)) (name_to_string H n))"
  shows "(addrs \<noteq> {} \<longrightarrow>
      (\<exists>m ips. process_message H uni data (bytes, src) proto = Replied (reply H src m) \<and>
         set ips = addrs \<and> answers (reply_message H m) =
           answers req @ map (from_rdata H n 0) (List.map_filter (address_data rt) ips))) \<and>
    (addrs = {} \<longrightarrow>
      process_message H uni data (bytes, src) proto =
        Forwarded (upstream_servers data (socket_ip src)) src req proto \<or>
      (\<exists>m. process_message H uni data (bytes, src) proto = Replied (reply H src m) \<and>
         response_code (reply_message H m) = NXDomain \<and> answers (reply_message H m) = answers req))"
  unfolding assms(6)
  by (rule address_answer [OF assms(1,2) parse_configs_ok [OF assms(2,3), symmetric] assms(4,5) refl])

abbreviation ctr1_client :: socket_addr where
  "ctr1_client \<equiv> Sock4 (Ipv4 10 88 0 2) 40000"

definition sample_data :: "dns_backend \<Rightarrow> core_dns_data" where
  "sample_data be = core_dns_new ''podman'' be False [Sock4 (Ipv4 1 1 1 1) 53]"

lemma sample_visible:
  "visible_to sample_cfgs (V4 (Ipv4 10 88 0 2)) ''podman'' ''ctr1'' = {V4 (Ipv4 10 88 0 2)}"
  "visible_to sample_cfgs (V4 (Ipv4 10 88 0 2)) ''podman'' ''db'' = {}"
  unfolding visible_to_def may_see_def sample_relations
  by (simp_all add: ex_disj_distrib conj_disj_distribR)

lemma sample_query:
  assumes "parse_configs id rev ''d'' (Inr True) (Inr sample_dir) ''.dns.podman'' = (log, Inr (be, l4, l6))"
    and "lookup_name id ''.dns.podman.'' q = name"
  shows "lookup_name id (search_domain (backend (sample_data be))) (name_to_string wire q) = name"
proof -
  have "search_domain be = ''.dns.podman.''"
    using store_search_domain [OF sample_loaded [OF assms(1)]] by (simp add: backend_new_domain)
  with assms(2) show ?thesis by (simp add: sample_data_def core_dns_new_def wire_def)
qed

theorem address_answers_complete_and_isolated_witness:
  "\<exists>log be l4 l6 m.
     parse_configs id rev ''d'' (Inr True) (Inr sample_dir) ''.dns.podman'' = (log, Inr (be, l4, l6)) \<and>
     process_message wire id (sample_data be) (query_bytes CHR 0x01 ''ctr1.dns.podman.'', ctr1_client) Udp =
       Replied (reply wire ctr1_client m) \<and>
     (\<exists>ips. set ips = {V4 (Ipv4 10 88 0 2)} \<and> answers (reply_message wire m) =
        map (from_rdata wire ''ctr1.dns.podman.'' 0) (List.map_filter (address_data RT_A) ips))"
proof -
  let ?bytes = "query_bytes CHR 0x01 ''ctr1.dns.podman.''"
  obtain log be l4 l6 where load: "parse_configs id rev ''d'' (Inr True) (Inr sample_dir) ''.dns.podman'' =
      (log, Inr (be, l4, l6))"
    using sample_load_exists by blast
  then have load': "parse_configs id rev ''d'' (Inr True) (Inr sample_dir) ''.dns.podman'' =
      (log, Inr (backend (sample_data be), l4, l6))"
    by (simp add: sample_data_def core_dns_new_def)
  have parsed: "parse_dns_msg wire (?bytes, ctr1_client) =
      Some (''ctr1.dns.podman.'', RT_A, the (from_vec wire ?bytes))"
    and none: "answers (the (from_vec wire ?bytes)) = []"
    and name: "lookup_name id ''.dns.podman.'' ''ctr1.dns.podman.'' = ''ctr1''"
    by code_simp+
  have rt: "address_type RT_A" by (simp add: address_type_def)
  have net: "network_name (sample_data be) = ''podman''"
    by (simp add: sample_data_def core_dns_new_def)
  have "{V4 (Ipv4 10 88 0 2)} = visible_to (config_files id sample_dir) (socket_ip ctr1_client)
      (network_name (sample_data be))
      (lookup_name id (search_domain (backend (sample_data be))) (name_to_string wire ''ctr1.dns.podman.''))"
    unfolding sample_query [OF load name] sample_config_files net socket_ip.simps
    by (rule sample_visible(1) [symmetric])
  note answer = address_answers_complete_and_isolated [OF wire_ok hash_order_rev load' parsed rt this, of Udp]
  have "{V4 (Ipv4 10 88 0 2)} \<noteq> ({} :: ip_addr set)" by simp
  from conjunct1 [OF answer, THEN mp, OF this] load none show ?thesis by auto
qed

section \<open>What never leaves the host\<close>

text \<open>C5: Nothing a container of internal networks asks leaves the host: when every network of the
  containers that own the requester's address counts as internal (by the last file of the network
  that was read and has a container), no message of it is ever forwarded, whatever it asks, over
  UDP or TCP, and whatever servers the files list.\<close>

theorem internal_containers_never_reach_upstream:
  assumes "hash_order order"
    and "parse_configs uni order dir is_dir (Inr configs) domain = (log, Inr (backend data, l4, l6))"
    and "internal_only (config_files uni configs) (socket_ip src)"
  shows "process_message H uni data (bytes, src) proto \<noteq> Forwarded ns dst m p"
proof -
  have "ctr_is_internal (backend data) (socket_ip src)"
    unfolding store_ctr_is_internal [OF assms(1) parse_configs_ok [OF assms(1,2), symmetric]]
    by (rule assms(3))
  then show ?thesis unfolding forwarded_iff may_forward_def by blast
qed

theorem internal_containers_never_reach_upstream_witness:
  "\<exists>log be l4 l6.
     parse_configs id rev ''d'' (Inr True) (Inr sample_dir) ''.dns.podman'' = (log, Inr (be, l4, l6)) \<and>
     (\<forall>ns dst m p. process_message wire id (sample_data be)
        (query_bytes CHR 0x01 ''example.org.'', Sock4 (Ipv4 10 90 0 2) 40000) Udp \<noteq> Forwarded ns dst m p)"
proof -
  let ?src = "Sock4 (Ipv4 10 90 0 2) 40000"
  obtain log be l4 l6 where load: "parse_configs id rev ''d'' (Inr True) (Inr sample_dir) ''.dns.podman'' =
      (log, Inr (be, l4, l6))"
    using sample_load_exists by blast
  then have load': "parse_configs id rev ''d'' (Inr True) (Inr sample_dir) ''.dns.podman'' =
      (log, Inr (backend (sample_data be), l4, l6))"
    by (simp add: sample_data_def core_dns_new_def)
  have "internal_only (config_files id sample_dir) (socket_ip ?src)"
    by (simp add: sample_config_files sample_internal_only)
  from internal_containers_never_reach_upstream [OF hash_order_rev load' this] load
  show ?thesis by blast
qed

text \<open>C29: Two files of one network, \<open>net\<close> and \<open>net%int\<close>, undo the isolation: if \<open>net\<close> is listed after
  \<open>net%int\<close> and has any container, then a container whose entries are all in internal files, one of
  them in \<open>net%int\<close>, does not count as internal, and its queries without a local answer are forwarded
  (unless forwarding is disabled or the name is under the search domain).
  The comment on \<open>ctr_is_internal\<close> promises \<open>true\<close> for exactly such containers.\<close>

theorem second_file_undoes_isolation:
  assumes "hash_order order"
    and "parse_configs uni order dir is_dir (Inr configs) domain = (log, Inr (backend data, l4, l6))"
    and "config_files uni configs = before @ (net, False, c) # after" and "container_entry c \<noteq> []"
    and "list_all (\<lambda>(n, i, c'). n \<noteq> net) after"
    and "entry_in before net True e" and "socket_ip src \<in> set (entry_ips e)"
    and "\<not> (\<exists>k net' e'. owns (config_files uni configs) k (socket_ip src) \<and>
           entry_in (config_files uni configs) net' False e' \<and> ctr_id e' = k)"
    and "parse_dns_msg H (bytes, src) = Some (n, rt, req)"
    and "local_answer H uni data src n rt req = None" and "\<not> no_proxy data"
    and "\<not> ends_with (name_to_string H n) (search_domain (backend data))"
  shows "\<not> ctr_is_internal (backend data) (socket_ip src) \<and>
    process_message H uni data (bytes, src) proto =
      Forwarded (upstream_servers data (socket_ip src)) src req proto"
proof -
  have "entry_in (config_files uni configs) net True e"
    using assms(6) unfolding assms(3) entry_in_def by auto
  then have "owns (config_files uni configs) (ctr_id e) (socket_ip src)"
    "member_of (config_files uni configs) (ctr_id e) net"
    using assms(7) unfolding owns_def member_of_def by blast+
  moreover have "network_flag (config_files uni configs) net = Some False"
    unfolding assms(3) by (rule last_file_flag [OF assms(4,5)])
  ultimately have "\<not> ctr_is_internal (backend data) (socket_ip src)"
    unfolding store_ctr_is_internal [OF assms(1) parse_configs_ok [OF assms(1,2), symmetric]]
      internal_only_def by blast
  with assms(9-12) show ?thesis unfolding forwarded_iff may_forward_def by blast
qed

definition two_files :: "(io_error + dir_entry) list" where
  "two_files =
     [Inr \<lparr>path_display = ''d/db%int'', file_name = Some ''db%int'', name_lossy = ''db%int'',
        contents = Inr (''10.90.0.1'' @ [CHR 0x0A] @ ''77aa01 10.90.0.2  db'')\<rparr>,
      Inr \<lparr>path_display = ''d/db'', file_name = Some ''db'', name_lossy = ''db'',
        contents = Inr (''10.90.0.1'' @ [CHR 0x0A] @ ''88bb02 10.90.0.3  web'')\<rparr>]"

definition web_config :: parsed_network_config where
  "web_config = \<lparr>network_bind_ip = [V4 (Ipv4 10 90 0 1)], container_entry =
     [\<lparr>ctr_id = ''88bb02'', ctr_v4 = Some [Ipv4 10 90 0 3], ctr_v6 = None, ctr_aliases = [''web''],
       ctr_dns_servers = None\<rparr>],
     network_dnsservers = []\<rparr>"

lemma two_files_config: "config_files id two_files = [(''db'', True, db_config), (''db'', False, web_config)]"
  by code_simp

theorem second_file_undoes_isolation_witness:
  "\<exists>log be l4 l6 m.
     parse_configs id rev ''d'' (Inr True) (Inr two_files) ''.dns.podman'' = (log, Inr (be, l4, l6)) \<and>
     process_message wire id (sample_data be)
       (query_bytes CHR 0x0F ''example.org.'', Sock4 (Ipv4 10 90 0 2) 40000) Udp =
       Forwarded (upstream_servers (sample_data be) (V4 (Ipv4 10 90 0 2))) (Sock4 (Ipv4 10 90 0 2) 40000) m Udp"
proof -
  let ?src = "Sock4 (Ipv4 10 90 0 2) 40000" and ?bytes = "query_bytes CHR 0x0F ''example.org.''"
  let ?F = "[(''db'', True, db_config)] @ (''db'', False, web_config) # []"
  have "names_readable two_files" by code_simp
  from parse_configs_succeeds [OF hash_order_rev this] obtain log result where
    "parse_configs id rev ''d'' (Inr True) (Inr two_files) ''.dns.podman'' = (log, Inr result)" by blast
  then obtain be l4 l6 where load: "parse_configs id rev ''d'' (Inr True) (Inr two_files) ''.dns.podman'' =
      (log, Inr (be, l4, l6))" by (cases result) auto
  then have load': "parse_configs id rev ''d'' (Inr True) (Inr two_files) ''.dns.podman'' =
      (log, Inr (backend (sample_data be), l4, l6))"
    by (simp add: sample_data_def core_dns_new_def)
  have files: "config_files id two_files = ?F" by (simp add: two_files_config)
  have web: "container_entry web_config \<noteq> []" by (simp add: web_config_def)
  have db: "container_entry db_config = [db_entry]" by (simp add: db_config_def)
  then have entry: "entry_in [(''db'', True, db_config)] ''db'' True db_entry" by (simp add: entry_in_def)
  have ip: "socket_ip ?src \<in> set (entry_ips db_entry)" by (simp add: sample_entry_fields)
  have only: "\<not> (\<exists>k net' e'. owns (config_files id two_files) k (socket_ip ?src) \<and>
      entry_in (config_files id two_files) net' False e' \<and> ctr_id e' = k)"
    unfolding two_files_config owns_def entry_in_def
    by (auto simp: web_config_def db sample_entry_fields entry_ips_def)
  have parsed: "parse_dns_msg wire (?bytes, ?src) = Some (''example.org.'', RT_Other 15, the (from_vec wire ?bytes))"
    "\<not> ends_with (name_to_string wire ''example.org.'') ''.dns.podman.''" by code_simp+
  have local: "local_answer wire id (sample_data be) ?src ''example.org.'' (RT_Other 15) req = None" for req
    by (simp add: local_answer_def Let_def)
  have proxy: "\<not> no_proxy (sample_data be)" by (simp add: sample_data_def core_dns_new_def)
  have "search_domain (backend (sample_data be)) = ''.dns.podman.''"
    using store_search_domain [OF parse_configs_ok [OF hash_order_rev load', symmetric]]
    by (simp add: backend_new_domain)
  with parsed(2) have "\<not> ends_with (name_to_string wire ''example.org.'') (search_domain (backend (sample_data be)))"
    by simp
  from second_file_undoes_isolation [OF hash_order_rev load' files web _ entry ip only parsed(1) local proxy this]
  have "process_message wire id (sample_data be) (?bytes, ?src) Udp =
      Forwarded (upstream_servers (sample_data be) (socket_ip ?src)) ?src (the (from_vec wire ?bytes)) Udp"
    by simp
  with load show ?thesis by auto
qed

text \<open>A forwarded query only reaches servers that are configured for the requester: DNS servers
  of its own containers or of their networks, always from non-internal networks and on port 53,
  or else the host's servers; the host's servers are used only when the files list none that
  applies.\<close>

theorem forwarded_only_to_configured_servers:
  assumes "hash_order order"
    and "parse_configs uni order dir is_dir (Inr configs) domain = (log, Inr (backend data, l4, l6))"
    and "process_message H uni data (bytes, src) proto = Forwarded ns dst m p"
  shows "ns = nameservers data \<or> ns \<noteq> [] \<and>
    list_all (\<lambda>a. \<exists>d. a = socket_new d 53 \<and>
      (container_server (config_files uni configs) (socket_ip src) d \<or>
       network_server (config_files uni configs) (socket_ip src) d)) ns"
proof -
  have ns: "ns = upstream_servers data (socket_ip src)" using assms(3) unfolding forwarded_iff by blast
  show ?thesis
  proof (cases "custom_resolvers (backend data) (socket_ip src) = []")
    case True
    then show ?thesis by (simp add: ns upstream_servers_def)
  next
    case False
    then have "ns = custom_resolvers (backend data) (socket_ip src)"
      by (simp add: ns upstream_servers_def Let_def)
    with False custom_resolvers_configured [OF assms(1) parse_configs_ok [OF assms(1,2), symmetric]]
    show ?thesis by (auto simp: list_all_iff DNS_PORT_def)
  qed
qed

theorem forwarded_only_to_configured_servers_witness:
  "\<exists>log be l4 l6 ns m.
     parse_configs id rev ''d'' (Inr True) (Inr sample_dir) ''.dns.podman'' = (log, Inr (be, l4, l6)) \<and>
     process_message wire id (sample_data be) (query_bytes CHR 0x0F ''example.org.'', ctr1_client) Udp =
       Forwarded ns ctr1_client m Udp \<and>
     (ns = [Sock4 (Ipv4 1 1 1 1) 53] \<or> list_all (\<lambda>a. socket_port a = 53) ns)"
proof -
  let ?bytes = "query_bytes CHR 0x0F ''example.org.''" and ?req = "the (from_vec wire (query_bytes CHR 0x0F ''example.org.''))"
  obtain log be l4 l6 where load: "parse_configs id rev ''d'' (Inr True) (Inr sample_dir) ''.dns.podman'' =
      (log, Inr (be, l4, l6))"
    using sample_load_exists by blast
  then have load': "parse_configs id rev ''d'' (Inr True) (Inr sample_dir) ''.dns.podman'' =
      (log, Inr (backend (sample_data be), l4, l6))"
    by (simp add: sample_data_def core_dns_new_def)
  have domain: "search_domain (backend (sample_data be)) = ''.dns.podman.''"
    using store_search_domain [OF sample_loaded [OF load]]
    by (simp add: backend_new_domain sample_data_def core_dns_new_def)
  have parsed: "parse_dns_msg wire (?bytes, ctr1_client) = Some (''example.org.'', RT_Other 15, ?req)"
    "\<not> ends_with (name_to_string wire ''example.org.'') ''.dns.podman.''" by code_simp+
  have "\<not> ctr_is_internal (backend (sample_data be)) (socket_ip ctr1_client)"
    unfolding store_ctr_is_internal [OF hash_order_rev sample_loaded [OF load']]
    by (simp add: sample_internal_only)
  then have "may_forward (sample_data be) (socket_ip ctr1_client) (name_to_string wire ''example.org.'')"
    using parsed(2) domain by (simp add: may_forward_def sample_data_def core_dns_new_def)
  then have fw: "process_message wire id (sample_data be) (?bytes, ctr1_client) Udp =
      Forwarded (upstream_servers (sample_data be) (socket_ip ctr1_client)) ctr1_client ?req Udp"
    using parsed(1) unfolding forwarded_iff by (auto simp: local_answer_def Let_def)
  have "nameservers (sample_data be) = [Sock4 (Ipv4 1 1 1 1) 53]"
    by (simp add: sample_data_def core_dns_new_def)
  with forwarded_only_to_configured_servers [OF hash_order_rev load' fw] load fw
  show ?thesis by (auto simp: list_all_iff)
qed

section \<open>From a signal to the next answer\<close>

text \<open>C9: A reload takes effect with the next message: after a SIGHUP that reads a new configuration,
  a task that was started long before answers an address query from the new files, completely
  and only from them.\<close>

theorem reload_changes_next_answer:
  assumes "platform_ok P" and "tasks_ok cfg s" and "hickory_ok H"
    and "parse_configs (pl_uni P) (pl_order P) (config_path cfg) (w_is_dir w) (Inr configs)
      (filter_search_domain cfg) = (log, Inr (conf, ips))"
    and "w_read_dir w = Inr configs" and "ips \<noteq> ([], [])"
    and "serve_step P cfg s (Sighup w) (Running s')"
    and "parse_dns_msg H (bytes, src) = Some (n, rt, req)" and "address_type rt"
    and "visible_to (config_files (pl_uni P) configs) (socket_ip src) (network_name inner)
      (lookup_name (pl_uni P) (search_domain conf) (name_to_string H n)) = addrs" and "addrs \<noteq> {}"
  shows "\<exists>m found. run H (pl_uni P) inner (Inr local)
      [Udp_Next (the (store s'), host_nameservers s') (Some (Inr (bytes, src)))] =
      ([Processed (Replied (reply H src m))], None) \<and> set found = addrs \<and>
    answers (reply_message H m) =
      answers req @ map (from_rdata H n 0) (List.map_filter (address_data rt) found)"
proof -
  let ?data = "load (the (store s'), host_nameservers s') inner"
  have order: "hash_order (pl_order P)" using assms(1) by (simp add: platform_ok_def)
  have parsed: "parse_configs (pl_uni P) (pl_order P) (config_path cfg) (w_is_dir w) (w_read_dir w)
      (filter_search_domain cfg) = (log, Inr (conf, ips))"
    using assms(4,5) by simp
  have "store s' = Some conf"
    using sighup_spawns [OF assms(1,2) parsed assms(6,7)] by blast
  then have data: "backend ?data = conf" "network_name ?data = network_name inner"
    by (simp_all add: load_def)
  have "store_of (pl_order P) (config_files (pl_uni P) configs) (filter_search_domain cfg) =
      (backend ?data, fst ips, snd ips)"
    using parse_configs_ok [OF order assms(4)] data by simp
  from address_answer [OF assms(3) order this assms(8,9), of _ "pl_uni P" Udp, OF refl] assms(10,11)
  obtain m found where "process_message H (pl_uni P) ?data (bytes, src) Udp = Replied (reply H src m)"
    "set found = addrs" "answers (reply_message H m) =
      answers req @ map (from_rdata H n 0) (List.map_filter (address_data rt) found)"
    unfolding data by blast
  then show ?thesis by (intro exI [of _ m] exI [of _ found]) (simp add: run_def)
qed

definition sample_dir_world :: world where
  "sample_dir_world = sample_world\<lparr>w_read_dir := Inr sample_dir\<rparr>"

theorem reload_changes_next_answer_witness:
  "\<exists>s s' m. serve_start sample_platform sample_settings sample_world None None None = Started s \<and>
     serve_step sample_platform sample_settings s (Sighup sample_dir_world) (Running s') \<and>
     run wire id (core_dns_new ''podman'' web_store False []) (Inr ctr1_client)
       [Udp_Next (the (store s'), host_nameservers s')
          (Some (Inr (query_bytes CHR 0x01 ''ctr1.dns.podman.'', ctr1_client)))] =
       ([Processed (Replied (reply wire ctr1_client m))], None)"
proof -
  let ?bytes = "query_bytes CHR 0x01 ''ctr1.dns.podman.''" and ?inner = "core_dns_new ''podman'' web_store False []"
  obtain s where s: "serve_start sample_platform sample_settings sample_world None None None = Started s"
    using sample_started by blast
  note tasks = sample_started_tasks [OF s]
  have uni: "pl_uni sample_platform = id" "pl_order sample_platform = rev"
    "config_path sample_settings = ''/run''" "filter_search_domain sample_settings = ''.dns.podman''"
    "w_is_dir sample_dir_world = Inr True" "w_read_dir sample_dir_world = Inr sample_dir"
    by (simp_all add: sample_platform_def sample_settings_def sample_dir_world_def sample_world_def)
  obtain log conf ips where load: "parse_configs id rev ''/run'' (Inr True) (Inr sample_dir) ''.dns.podman'' =
      (log, Inr (conf, ips))"
    using parse_configs_processed [OF hash_order_rev] process_files_total [OF sample_names]
    by (metis prod.collapse)
  obtain l4 l6 where l: "ips = (l4, l6)" by (cases ips)
  have st: "store_of rev sample_cfgs ''.dns.podman'' = (conf, l4, l6)"
    using parse_configs_ok [OF hash_order_rev load] l by (simp add: sample_config_files)
  have "Ipv4 10 88 0 1 \<in> set (or_default (map_of l4 ''podman''))"
    unfolding store_fields(7) [OF st] built_listen
    by (simp add: sample_cfgs_def sample_config_def ex_disj_distrib ex_bool_eq)
  then have ips: "ips \<noteq> ([], [])" by (auto simp: l)
  have step: "\<exists>s'. serve_step sample_platform sample_settings s (Sighup sample_dir_world) (Running s')"
  proof -
    let ?s = "(add_log (map Log_Config log) s)\<lparr>store := Some conf\<rparr>"
    have "tasks_ok sample_settings ?s" using tasks by simp
    then show ?thesis
    proof (rule spawn_obtain [OF sample_platform_ok, of sample_settings ?s sample_dir_world ips])
      fix s1 r1
      assume "spawn_servers sample_platform sample_settings sample_dir_world ips ?s = Returned s1 r1"
      with load ips have "read_config_and_spawn sample_platform sample_settings sample_dir_world s = Returned s1 r1"
        by (simp add: read_config_cases uni Let_def)
      then show ?thesis using serve_step.reload by blast
    qed
  qed
  then obtain s' where s': "serve_step sample_platform sample_settings s (Sighup sample_dir_world) (Running s')" ..
  have parsed: "parse_dns_msg wire (?bytes, ctr1_client) =
      Some (''ctr1.dns.podman.'', RT_A, the (from_vec wire ?bytes))"
    and name: "lookup_name id ''.dns.podman.'' (name_to_string wire ''ctr1.dns.podman.'') = ''ctr1''"
    by code_simp+
  have domain: "search_domain conf = ''.dns.podman.''"
    using store_search_domain [OF st] by (simp add: backend_new_domain)
  have visible: "visible_to (config_files (pl_uni sample_platform) sample_dir) (socket_ip ctr1_client)
      (network_name ?inner) (lookup_name (pl_uni sample_platform) (search_domain conf)
        (name_to_string wire ''ctr1.dns.podman.'')) = {V4 (Ipv4 10 88 0 2)}"
    unfolding uni domain name sample_config_files socket_ip.simps
    by (simp add: core_dns_new_def sample_visible(1))
  have rt: "address_type RT_A" by (simp add: address_type_def)
  have ne: "{V4 (Ipv4 10 88 0 2)} \<noteq> {}" by simp
  note answer = reload_changes_next_answer [OF sample_platform_ok tasks wire_ok,
      unfolded uni, of sample_dir_world sample_dir log conf ips, unfolded uni,
      OF load refl ips s' parsed rt visible [unfolded uni] ne, of ctr1_client]
  then obtain m where "run wire id ?inner (Inr ctr1_client)
      [Udp_Next (the (store s'), host_nameservers s') (Some (Inr (?bytes, ctr1_client)))] =
      ([Processed (Replied (reply wire ctr1_client m))], None)" by blast
  with s s' show ?thesis by blast
qed


section \<open>Whatever happened before\<close>

text \<open>C4: A running server never mixes configurations and never leaks: after any sequence of signals,
  changes of \<open>resolv.conf\<close> and ended tasks, every task answers an address query completely from
  the files of one single reload, exactly with the addresses those files let the requester see,
  or else with NXDOMAIN, or it forwards the query, which no task does when
  \<open>AARDVARK_NO_PROXY\<close> is set.\<close>

theorem running_tasks_answer_from_one_configuration:
  assumes "platform_ok P" and "hickory_ok H"
    and "reachable P cfg watching admissible s" and "task_data cfg s t = Some data"
    and "parse_dns_msg H (bytes, src) = Some (n, rt, req)" and "address_type rt"
  shows "\<exists>w configs addrs. admissible w \<and> w_read_dir w = Inr configs \<and>
    addrs = visible_to (config_files (pl_uni P) configs) (socket_ip src) (task_network t)
      (lookup_name (pl_uni P) (search_domain (backend data)) (name_to_string H n)) \<and>
    ((\<exists>m ips. process_message H (pl_uni P) data (bytes, src) proto = Replied (reply H src m) \<and>
        addrs \<noteq> {} \<and> set ips = addrs \<and> answers (reply_message H m) =
          answers req @ map (from_rdata H n 0) (List.map_filter (address_data rt) ips)) \<or>
     addrs = {} \<and>
       ((\<exists>m. process_message H (pl_uni P) data (bytes, src) proto = Replied (reply H src m) \<and>
          response_code (reply_message H m) = NXDomain \<and> answers (reply_message H m) = answers req) \<or>
        \<not> no_proxy_env cfg \<and> process_message H (pl_uni P) data (bytes, src) proto =
          Forwarded (upstream_servers data (socket_ip src)) src req proto))"
proof -
  obtain w be where w: "admissible w" "loaded_from P cfg w be" "store s = Some be"
    using reachable_loaded [OF assms(3)] by blast
  from assms(4) w(3) have data: "backend data = be" "network_name data = task_network t"
    "no_proxy data = no_proxy_env cfg"
    by (auto simp: task_data_def core_dns_new_def)
  obtain configs l4 l6 where c: "w_read_dir w = Inr configs" "store_of (pl_order P)
      (config_files (pl_uni P) configs) (filter_search_domain cfg) = (backend data, l4, l6)"
    using loaded_from_files [OF assms(1) w(2)] unfolding data by blast
  have order: "hash_order (pl_order P)" using assms(1) by (simp add: platform_ok_def)
  have "\<not> no_proxy_env cfg" if "process_message H (pl_uni P) data (bytes, src) proto = Forwarded ns d m p" for ns d m p
    using that unfolding forwarded_iff may_forward_def data by blast
  note forwards = this
  note answer = address_answer [OF assms(2) order c(2) assms(5,6) refl, of "pl_uni P" proto, unfolded data(2)]
  let ?addrs = "visible_to (config_files (pl_uni P) configs) (socket_ip src) (task_network t)
      (lookup_name (pl_uni P) (search_domain (backend data)) (name_to_string H n))"
  show ?thesis
  proof (intro exI conjI, rule w(1), rule c(1), rule refl, goal_cases)
    case 1
    show ?case
    proof (cases "?addrs = {}")
      case True
      with conjunct2 [OF answer, THEN mp, OF True] forwards show ?thesis by blast
    next
      case False
      with conjunct1 [OF answer, THEN mp, OF False] show ?thesis by blast
    qed
  qed
qed

theorem running_tasks_answer_from_one_configuration_witness:
  "\<exists>s data m. reachable sample_platform (sample_settings\<lparr>no_proxy_env := True\<rparr>) True (\<lambda>w. w = sample_world) s \<and>
     task_data (sample_settings\<lparr>no_proxy_env := True\<rparr>) s (new_task V4 53 sample_key) = Some data \<and>
     process_message wire id data (query_bytes CHR 0x01 ''example.org.'', ctr1_client) Tcp =
       Replied (reply wire ctr1_client m) \<and> response_code (reply_message wire m) = NXDomain"
proof -
  let ?cfg = "sample_settings\<lparr>no_proxy_env := True\<rparr>" and ?bytes = "query_bytes CHR 0x01 ''example.org.''"
  have "(case serve_start sample_platform ?cfg sample_world None None None of
      Started s \<Rightarrow> store s \<noteq> None | _ \<Rightarrow> False)"
    by code_simp
  then obtain s be where s: "serve_start sample_platform ?cfg sample_world None None None = Started s"
    "store s = Some be"
    by (auto split: startup.splits)
  have reach: "reachable sample_platform ?cfg True (\<lambda>w. w = sample_world) s"
    by (rule reachable.started [OF refl]) (simp add: s(1))
  obtain data where data: "task_data ?cfg s (new_task V4 53 sample_key) = Some data"
    using s(2) by (simp add: task_data_def)
  have parsed: "parse_dns_msg wire (?bytes, ctr1_client) =
      Some (''example.org.'', RT_A, the (from_vec wire ?bytes))" by code_simp
  have rt: "address_type RT_A" by (simp add: address_type_def)
  have files: "config_files id [Inr small_file] =
      [(''podman'', False, \<lparr>network_bind_ip = [V4 (Ipv4 10 88 0 1)], container_entry = [], network_dnsservers = []\<rparr>)]"
    by code_simp
  have none: "visible_to (config_files (pl_uni sample_platform) configs) r net name = {}"
    if "w_read_dir sample_world = Inr configs" for configs r net name
    using that files by (auto simp: visible_to_def named_def entry_in_def sample_world_def sample_platform_def)
  have uni: "pl_uni sample_platform = id" by (simp add: sample_platform_def)
  have no_proxy: "no_proxy_env ?cfg" by simp
  from running_tasks_answer_from_one_configuration [OF sample_platform_ok wire_ok reach data parsed rt, of Tcp]
  have "\<exists>m. process_message wire id data (?bytes, ctr1_client) Tcp = Replied (reply wire ctr1_client m) \<and>
      response_code (reply_message wire m) = NXDomain"
    using none no_proxy unfolding uni by (metis)
  with reach data show ?thesis by blast
qed

end
